theory Spec2Isabelle
  imports Main "HOL-Library.Multiset" "HOL-Library.Sublist" "HOL-Library.AList"
begin

section \<open>Strings and numbers of the host language\<close>

text \<open>
  The program is JavaScript (\<^verbatim>\<open>src/src/App.jsx\<close>).  A JavaScript string is a sequence of
  UTF-16 code units; it is modelled as the list of its code units, each a natural number.
  \<open>js\<close> turns an ASCII literal into that representation, so \<open>js ''kg''\<close> is the string
  \<^verbatim>\<open>"kg"\<close>.  The Turkish letters of the unit vocabulary are written by their code units.
\<close>

type_synonym jsstring = "nat list"

definition js :: "string \<Rightarrow> jsstring" where
  "js s = map of_char s"

text \<open>
  A JavaScript number is an IEEE-754 double.  The only numbers the program computes from
  quantity texts are non-negative integers and \<open>+Infinity\<close>: results of \<^verbatim>\<open>parseInt\<close> on
  a run of decimal digits, and sums of those.  \<open>Fin n\<close> is the double whose value is the
  integer \<open>n\<close>; \<open>to_double\<close> rounds a mathematical integer to the nearest double (53
  significant bits, ties to even, overflow to infinity), which is what both \<^verbatim>\<open>parseInt\<close>
  (through the engine's correctly rounded decimal conversion) and \<^verbatim>\<open>+\<close> do.
\<close>

datatype number = Fin nat | PosInf

definition MAX_SAFE_INTEGER :: nat where
  "MAX_SAFE_INTEGER = 9007199254740991"

fun bit_length :: "nat \<Rightarrow> nat" where
  "bit_length n = (if n = 0 then 0 else Suc (bit_length (n div 2)))"

declare bit_length.simps [simp del]

definition to_double :: "nat \<Rightarrow> number" where
  "to_double n =
     (if n < 2 ^ 53 then Fin n
      else let e = bit_length n - 53;
               q = n div 2 ^ e;
               r = n mod 2 ^ e;
               q' = (if 2 ^ e < 2 * r \<or> (2 * r = 2 ^ e \<and> odd q) then q + 1 else q)
           in if 2 ^ 1024 \<le> q' * 2 ^ e then PosInf else Fin (q' * 2 ^ e))"

fun number_add :: "number \<Rightarrow> number \<Rightarrow> number" where
  "number_add (Fin a) (Fin b) = to_double (a + b)"
| "number_add _ _ = PosInf"

text \<open>
  \<^verbatim>\<open>`${n}`\<close> applies \<open>Number::toString\<close>.  Below \<open>2^53\<close> every integer is a double and is
  printed as its decimal digits.  From \<open>2^53\<close> on, the language looks for integers \<open>k\<close>,
  \<open>n\<close> and \<open>s\<close>, where \<open>s\<close> has \<open>k\<close> digits and \<open>s * 10^(n - k)\<close> reads back as the same
  double, with \<open>k\<close> as small as possible (among several such \<open>s\<close> the engine takes the
  closest one, then the even one): \<open>shortest_candidates\<close> lists the triples for \<open>k\<close> up to
  17, which always suffices for a double, and \<open>closer\<close> chooses between two of them.  The
  digits of \<open>s\<close> are printed, followed by \<open>n - k\<close> zeros when \<open>n\<close> is at most 21, and in
  exponent notation otherwise.  \<open>Infinity\<close> is printed as its name.
\<close>

fun digits :: "nat \<Rightarrow> jsstring" where
  "digits n = (if n < 10 then [48 + n] else digits (n div 10) @ [48 + n mod 10])"

declare digits.simps [simp del]

definition shortest_candidates :: "nat \<Rightarrow> (nat \<times> nat \<times> nat) list" where
  "shortest_candidates x =
     (let d = length (digits x) in
      concat (map (\<lambda>k. concat (map (\<lambda>n. concat (map (\<lambda>s.
        if k \<le> n \<and> 10 ^ (k - 1) \<le> s \<and> s < 10 ^ k \<and> to_double (s * 10 ^ (n - k)) = Fin x
        then [(k, n, s)] else [])
        [x div 10 ^ (n - k), x div 10 ^ (n - k) + 1])) [d, d + 1])) [1 ..< 18]))"

definition distance :: "nat \<Rightarrow> nat \<Rightarrow> nat" where
  "distance a b = (if a \<le> b then b - a else a - b)"

fun closer :: "nat \<Rightarrow> (nat \<times> nat \<times> nat) \<Rightarrow> (nat \<times> nat \<times> nat) \<Rightarrow> (nat \<times> nat \<times> nat)" where
  "closer x (k, n, s) (k', n', s') =
     (let a = distance (s * 10 ^ (n - k)) x; b = distance (s' * 10 ^ (n' - k')) x in
      if k' < k \<or> (k' = k \<and> (b < a \<or> (b = a \<and> even s' \<and> odd s)))
      then (k', n', s') else (k, n, s))"

definition Number_toString :: "number \<Rightarrow> jsstring" where
  "Number_toString v =
     (case v of
        PosInf \<Rightarrow> js ''Infinity''
      | Fin x \<Rightarrow>
          if x < 2 ^ 53 then digits x
          else (case shortest_candidates x of
                  [] \<Rightarrow> digits x
                | c # cs \<Rightarrow>
                    (case foldl (closer x) c cs of (k, n, s) \<Rightarrow>
                       if n \<le> 21 then digits s @ replicate (n - k) 48
                       else if k = 1 then digits s @ js ''e+'' @ digits (n - 1)
                       else hd (digits s) # 46 # tl (digits s) @ js ''e+'' @ digits (n - 1))))"

section \<open>QuantityParser: \<^verbatim>\<open>parseQuantity\<close> (the spec's \<open>parseMagnitude\<close>)\<close>

text \<open>
  \<^verbatim>\<open>
  const parseQuantity = (quantityStr) => {
    const numbers = String(quantityStr || '').match(/\d+/g);
    if (!numbers) return 0;
    return numbers.reduce((sum, num) => sum + parseInt(num, 10), 0);
  };
  \<close>
  \<^verbatim>\<open>\d\<close> is an ASCII digit.  The global match returns the successive leftmost greedy
  matches, or \<^verbatim>\<open>null\<close> when there is none.  \<^verbatim>\<open>parseInt\<close> is only applied to such a match,
  a non-empty run of digits.
\<close>

definition is_digit :: "nat \<Rightarrow> bool" where
  "is_digit c = (48 \<le> c \<and> c \<le> 57)"

function match_digits :: "jsstring \<Rightarrow> jsstring list" where
  "match_digits [] = []"
| "match_digits (c # cs) =
     (if is_digit c
      then takeWhile is_digit (c # cs) # match_digits (dropWhile is_digit cs)
      else match_digits cs)"
  by pat_completeness auto

termination
  by (relation "measure length") (auto simp: less_Suc_eq_le length_dropWhile_le)

definition decimal_value :: "jsstring \<Rightarrow> nat" where
  "decimal_value ds = foldl (\<lambda>a c. 10 * a + (c - 48)) 0 ds"

definition parseInt :: "jsstring \<Rightarrow> number" where
  "parseInt num = to_double (decimal_value num)"

definition parseQuantity :: "jsstring \<Rightarrow> number" where
  "parseQuantity quantityStr =
     (case match_digits quantityStr of
        [] \<Rightarrow> Fin 0
      | numbers \<Rightarrow> foldl (\<lambda>sum num. number_add sum (parseInt num)) (Fin 0) numbers)"

section \<open>QuantityParser: \<^verbatim>\<open>getUnit\<close> (the spec's \<open>parseUnit\<close>)\<close>

text \<open>
  \<^verbatim>\<open>
  const getUnit = (quantityStr) => {
    const units = String(quantityStr || '').match(
      /(?:kg|kasa|adet|paket|demet|ba\u011f|\u00e7ubuk|tane|\u00e7uval|salk\u0131m)/gi);
    return units ? units[0] : 'adet';
  };
  \<close>
  The tokens are written by their code units: \<open>\u011f\<close> is 287, \<open>\u00e7\<close> is 231 and the
  dotless \<open>\u0131\<close> is 305.  With the flag \<^verbatim>\<open>i\<close> (and without \<^verbatim>\<open>u\<close>) a pattern
  character matches the code units that have the same simple upper-case form, an
  upper-case form in ASCII being refused for a character outside ASCII: an ASCII letter
  matches its two cases, 231 matches 231 and 199, 287 matches 287 and 286, and the dotless
  305, whose upper case is the ASCII \<open>I\<close>, matches only itself.  \<open>case_variants\<close> lists
  these code units for a pattern character.

  The alternatives are tried in order at each position, from the left; the global match
  continues behind each match.
\<close>

definition unit_tokens :: "jsstring list" where
  "unit_tokens =
     [js ''kg'', js ''kasa'', js ''adet'', js ''paket'', js ''demet'', [98, 97, 287],
      [231, 117, 98, 117, 107], js ''tane'', [231, 117, 118, 97, 108],
      [115, 97, 108, 107, 305, 109]]"

definition case_variants :: "nat \<Rightarrow> nat list" where
  "case_variants p =
     (if 97 \<le> p \<and> p \<le> 122 then [p, p - 32]
      else if p = 231 then [231, 199]
      else if p = 287 then [287, 286]
      else [p])"

definition ci_char :: "nat \<Rightarrow> nat \<Rightarrow> bool" where
  "ci_char p c = (c \<in> set (case_variants p))"

definition matches_here :: "jsstring \<Rightarrow> jsstring \<Rightarrow> bool" where
  "matches_here t s = (length t \<le> length s \<and> list_all2 ci_char t (take (length t) s))"

fun match_alternatives :: "jsstring list \<Rightarrow> jsstring \<Rightarrow> jsstring option" where
  "match_alternatives [] s = None"
| "match_alternatives (t # ts) s =
     (if matches_here t s then Some (take (length t) s) else match_alternatives ts s)"

function match_units :: "jsstring \<Rightarrow> jsstring list" where
  "match_units [] = []"
| "match_units (c # cs) =
     (case match_alternatives unit_tokens (c # cs) of
        Some m \<Rightarrow> m # match_units (drop (length m) (c # cs))
      | None \<Rightarrow> match_units cs)"
  by pat_completeness auto

termination
proof (relation "measure length")
  show "wf (measure length)" by simp
next
  fix c cs m
  assume found: "match_alternatives unit_tokens (c # cs) = Some m"
  have "match_alternatives ts s = Some m \<Longrightarrow> [] \<notin> set ts \<Longrightarrow> m \<noteq> []" for ts s
    by (induction ts) (auto simp: matches_here_def split: if_splits)
  moreover have "[] \<notin> set unit_tokens"
    by (simp add: unit_tokens_def js_def)
  ultimately have "m \<noteq> []" using found by blast
  then show "(drop (length m) (c # cs), c # cs) \<in> measure length"
    by (cases m) auto
next
  fix c cs
  show "(cs, c # cs) \<in> measure length" by simp
qed

definition getUnit :: "jsstring \<Rightarrow> jsstring" where
  "getUnit quantityStr =
     (case match_units quantityStr of [] \<Rightarrow> js ''adet'' | u # _ \<Rightarrow> u)"

section \<open>The data model\<close>

text \<open>
  A product record as the normalizer builds it (the field \<^verbatim>\<open>id\<close> is \<open>id_num\<close> here), and
  the record the view shows, which adds the duplicate annotation.  A raw row is the object
  the CSV parser delivers: a partial map from column names to strings, an absent column
  reading as \<^verbatim>\<open>undefined\<close>.
\<close>

record product =
  id_num :: nat
  name :: jsstring
  quantity :: jsstring
  originalQuantity :: jsstring
  date :: jsstring
  uniqueKey :: jsstring

type_synonym rawrow = "jsstring \<rightharpoonup> jsstring"

text \<open>
  \<open>duplicateCount\<close> holds whatever \<^verbatim>\<open>nameCounts[product.name]\<close> yields.  \<open>Num n\<close> is a count.
  \<open>NonNumeric\<close> stands for the values that are not numbers and convert to \<open>NaN\<close>: the text
  of a built-in function followed by \<open>1\<close>s, and the object \<^verbatim>\<open>Object.prototype\<close>; they are
  all truthy.
\<close>

datatype jsvalue = Undefined | Num nat | NonNumeric

record annotated = product +
  duplicateCount :: jsvalue
  isDuplicate :: bool

text \<open>
  The functions of the engine that depend on its Unicode and locale tables are parameters
  of the model: \<^verbatim>\<open>String.prototype.toLowerCase\<close> and \<^verbatim>\<open>a.localeCompare(b, 'tr')\<close>.
\<close>

record engine =
  toLowerCase :: "jsstring \<Rightarrow> jsstring"
  localeCompare :: "jsstring \<Rightarrow> jsstring \<Rightarrow> int"

section \<open>RecordNormalizer: \<^verbatim>\<open>processedProducts\<close>\<close>

text \<open>
  \<^verbatim>\<open>
  const processedProducts = results.data
    .map((row, index) => {
      const productName = row['\u00fcr\u00fcn'] || row['\u00dcr\u00fcn'] || '';
      const quantity = row['miktar'] || row['Miktar'] || '';
      return {
        id: index + 1, // Each row gets a unique ID
        name: (productName || '').trim(),
        quantity: (quantity || '').trim(),
        originalQuantity: (quantity || '').trim(),
        date: '2025-08-26', // Default date for all orders
        uniqueKey: `${(productName || '').trim()}-${(quantity || '').trim()}`,
      };
    })
    .filter((product) => product.name && product.quantity);
  \<close>
  \<^verbatim>\<open>a || b\<close> is \<open>a\<close> unless \<open>a\<close> is \<^verbatim>\<open>undefined\<close> or the empty string.  \<^verbatim>\<open>trim\<close> removes the
  white space and line terminators of ECMAScript at both ends.  The column names are
  written by their code units (\<open>\u00fc\<close> is 252, \<open>\u00dc\<close> is 220).
\<close>

definition is_white_space :: "nat \<Rightarrow> bool" where
  "is_white_space c =
     (c \<in> set [9, 10, 11, 12, 13, 32, 160, 5760, 8232, 8233, 8239, 8287, 12288, 65279]
      \<or> (8192 \<le> c \<and> c \<le> 8202))"

definition trim :: "jsstring \<Rightarrow> jsstring" where
  "trim s = rev (dropWhile is_white_space (rev (dropWhile is_white_space s)))"

definition js_or :: "jsstring option \<Rightarrow> jsstring option \<Rightarrow> jsstring option" where
  "js_or a b = (case a of Some (c # cs) \<Rightarrow> a | _ \<Rightarrow> b)"

definition or_empty :: "jsstring option \<Rightarrow> jsstring" where
  "or_empty a = (case a of Some s \<Rightarrow> s | None \<Rightarrow> [])"

definition productName :: "rawrow \<Rightarrow> jsstring" where
  "productName row = or_empty (js_or (row [252, 114, 252, 110]) (row [220, 114, 252, 110]))"

definition quantity_of :: "rawrow \<Rightarrow> jsstring" where
  "quantity_of row = or_empty (js_or (row (js ''miktar'')) (row (js ''Miktar'')))"

definition make_product :: "rawrow \<Rightarrow> nat \<Rightarrow> product" where
  "make_product row index =
     \<lparr> id_num = index + 1,
       name = trim (productName row),
       quantity = trim (quantity_of row),
       originalQuantity = trim (quantity_of row),
       date = js ''2025-08-26'',
       uniqueKey = trim (productName row) @ js ''-'' @ trim (quantity_of row) \<rparr>"

definition processedProducts :: "rawrow list \<Rightarrow> product list" where
  "processedProducts data =
     filter (\<lambda>product. name product \<noteq> [] \<and> quantity product \<noteq> [])
       (map (\<lambda>(index, row). make_product row index) (enumerate 0 data))"

section \<open>The view: \<^verbatim>\<open>filteredProducts\<close>\<close>

subsection \<open>ViewFilter\<close>

text \<open>
  \<^verbatim>\<open>
  filtered = filtered.filter(product => product.date === selectedDate);
  if (searchTerm) {
    filtered = filtered.filter((product) =>
      product.name.toLowerCase().includes(searchTerm.toLowerCase()));
  }
  \<close>
\<close>

fun string_includes :: "jsstring \<Rightarrow> jsstring \<Rightarrow> bool" where
  "string_includes [] t = (t = [])"
| "string_includes (c # cs) t = (prefix t (c # cs) \<or> string_includes cs t)"

definition dateFilter :: "jsstring \<Rightarrow> ('a product_scheme) list \<Rightarrow> ('a product_scheme) list" where
  "dateFilter selectedDate products = filter (\<lambda>product. date product = selectedDate) products"

definition textFilter ::
  "engine \<Rightarrow> jsstring \<Rightarrow> ('a product_scheme) list \<Rightarrow> ('a product_scheme) list" where
  "textFilter e searchTerm filtered =
     (if searchTerm \<noteq> []
      then filter (\<lambda>product.
             string_includes (toLowerCase e (name product)) (toLowerCase e searchTerm)) filtered
      else filtered)"

subsection \<open>Aggregator\<close>

text \<open>
  \<^verbatim>\<open>
  const groupedProducts = {};
  filtered.forEach(product => {
    const key = `${product.name}-${product.quantity}`;
    if (groupedProducts[key]) {
      // If same product with same unit exists, combine quantities
      const existingQuantity = parseQuantity(groupedProducts[key].quantity);
      const newQuantity = parseQuantity(product.quantity);
      const combinedQuantity = existingQuantity + newQuantity;
      const unit = getUnit(product.quantity);
      groupedProducts[key].quantity = `${combinedQuantity} ${unit}`;
      groupedProducts[key].originalQuantity = `${combinedQuantity} ${unit}`;
    } else {
      groupedProducts[key] = { ...product };
    }
  });
  filtered = Object.values(groupedProducts);
  \<close>
  \<^verbatim>\<open>groupedProducts\<close> is an association list in insertion order: every key contains the
  character \<open>-\<close>, so none is an array index and none is a property of \<^verbatim>\<open>Object.prototype\<close>;
  \<^verbatim>\<open>Object.values\<close> lists the values in the order the keys were first set, and assigning to
  a field of an existing entry keeps its place.
\<close>

definition group_key :: "product \<Rightarrow> jsstring" where
  "group_key product = name product @ js ''-'' @ quantity product"

definition combine :: "product \<Rightarrow> product \<Rightarrow> product" where
  "combine existing product =
     (let existingQuantity = parseQuantity (quantity existing);
          newQuantity = parseQuantity (quantity product);
          combinedQuantity = number_add existingQuantity newQuantity;
          unit = getUnit (quantity product);
          text = Number_toString combinedQuantity @ js '' '' @ unit
      in existing\<lparr>quantity := text, originalQuantity := text\<rparr>)"

definition group_step ::
  "(jsstring \<times> product) list \<Rightarrow> product \<Rightarrow> (jsstring \<times> product) list" where
  "group_step groupedProducts product =
     (let key = group_key product in
      case map_of groupedProducts key of
        Some existing \<Rightarrow> AList.update key (combine existing product) groupedProducts
      | None \<Rightarrow> groupedProducts @ [(key, product)])"

definition aggregate :: "product list \<Rightarrow> product list" where
  "aggregate filtered = map snd (foldl group_step [] filtered)"

subsection \<open>DuplicateAnnotator\<close>

text \<open>
  \<^verbatim>\<open>
  const nameCounts = {};
  filtered.forEach(product => {
    nameCounts[product.name] = (nameCounts[product.name] || 0) + 1;
  });
  filtered = filtered.map(product => ({
    ...product,
    duplicateCount: nameCounts[product.name],
    isDuplicate: nameCounts[product.name] > 1
  }));
  \<close>
  \<^verbatim>\<open>nameCounts\<close> is an ordinary object, keyed by product names, which are arbitrary strings.
  Reading a key it does not hold itself finds the property of \<^verbatim>\<open>Object.prototype\<close> of that
  name, when there is one: a built-in function, or for \<^verbatim>\<open>__proto__\<close> the prototype object.
  Such a value is truthy, so \<^verbatim>\<open>|| 0\<close> keeps it, and \<^verbatim>\<open>+ 1\<close> makes a string of it.  Writing
  the key \<^verbatim>\<open>__proto__\<close> with a string changes nothing.  \<open>nameCounts\<close> is modelled by the map
  of its own properties, read through \<open>get_property\<close>.
\<close>

definition object_prototype_keys :: "jsstring list" where
  "object_prototype_keys =
     [js ''constructor'', js ''__defineGetter__'', js ''__defineSetter__'',
      js ''hasOwnProperty'', js ''__lookupGetter__'', js ''__lookupSetter__'',
      js ''isPrototypeOf'', js ''propertyIsEnumerable'', js ''toString'', js ''valueOf'',
      js ''__proto__'', js ''toLocaleString'']"

definition get_property :: "(jsstring \<rightharpoonup> jsvalue) \<Rightarrow> jsstring \<Rightarrow> jsvalue" where
  "get_property own k =
     (case own k of
        Some v \<Rightarrow> v
      | None \<Rightarrow> if k \<in> set object_prototype_keys then NonNumeric else Undefined)"

definition set_property ::
  "(jsstring \<rightharpoonup> jsvalue) \<Rightarrow> jsstring \<Rightarrow> jsvalue \<Rightarrow> (jsstring \<rightharpoonup> jsvalue)" where
  "set_property own k v = (if k = js ''__proto__'' then own else own(k \<mapsto> v))"

fun or_zero_plus_one :: "jsvalue \<Rightarrow> jsvalue" where
  "or_zero_plus_one Undefined = Num 1"
| "or_zero_plus_one (Num c) = Num (c + 1)"
| "or_zero_plus_one NonNumeric = NonNumeric"

fun greater_than_one :: "jsvalue \<Rightarrow> bool" where
  "greater_than_one (Num c) = (1 < c)"
| "greater_than_one _ = False"

definition count_step :: "(jsstring \<rightharpoonup> jsvalue) \<Rightarrow> product \<Rightarrow> (jsstring \<rightharpoonup> jsvalue)" where
  "count_step nameCounts product =
     set_property nameCounts (name product)
       (or_zero_plus_one (get_property nameCounts (name product)))"

definition annotate :: "product list \<Rightarrow> annotated list" where
  "annotate filtered =
     (let nameCounts = foldl count_step Map.empty filtered in
      map (\<lambda>product.
            \<lparr> id_num = id_num product, name = name product, quantity = quantity product,
              originalQuantity = originalQuantity product, date = date product,
              uniqueKey = uniqueKey product,
              duplicateCount = get_property nameCounts (name product),
              isDuplicate = greater_than_one (get_property nameCounts (name product)) \<rparr>)
        filtered)"

subsection \<open>Sorter\<close>

text \<open>
  \<^verbatim>\<open>
  if (sortBy !== 'none') {
    filtered = [...filtered].sort((a, b) => {
      let comparison = 0;
      if (sortColumn === 'name') {
        comparison = a.name.toLowerCase().localeCompare(b.name.toLowerCase(), 'tr');
      } else if (sortColumn === 'quantity') {
        comparison = parseQuantity(a.quantity) - parseQuantity(b.quantity);
      }
      return sortBy === 'desc' ? -comparison : comparison;
    });
  }
  \<close>
  \<^verbatim>\<open>sortColumn\<close> is only ever set to \<^verbatim>\<open>'name'\<close> or \<^verbatim>\<open>'quantity'\<close>.  The sort reads the sign of
  the comparator's result; \<open>number_sub_sign\<close> is the sign of a difference of two
  quantities, \<open>Infinity - Infinity\<close> being \<open>NaN\<close>, which the sort takes for 0.
  \<^verbatim>\<open>Array.prototype.sort\<close> is stable, and for a consistent comparator the language fixes
  its result: the sorted order, equal elements in input order.  It is modelled by
  insertion sort, which inserts each element before the first one it does not follow and
  computes that result.
\<close>

datatype sort_direction = Asc | Desc | NoSort

datatype sort_column = NameColumn | QuantityColumn

fun number_sub_sign :: "number \<Rightarrow> number \<Rightarrow> int" where
  "number_sub_sign (Fin a) (Fin b) = (if a < b then - 1 else if a = b then 0 else 1)"
| "number_sub_sign (Fin a) PosInf = - 1"
| "number_sub_sign PosInf (Fin b) = 1"
| "number_sub_sign PosInf PosInf = 0"

definition comparator ::
  "engine \<Rightarrow> sort_column \<Rightarrow> sort_direction \<Rightarrow> 'a product_scheme \<Rightarrow> 'a product_scheme \<Rightarrow> int" where
  "comparator e sortColumn sortBy a b =
     (let comparison =
        (case sortColumn of
           NameColumn \<Rightarrow> localeCompare e (toLowerCase e (name a)) (toLowerCase e (name b))
         | QuantityColumn \<Rightarrow>
             number_sub_sign (parseQuantity (quantity a)) (parseQuantity (quantity b)))
      in if sortBy = Desc then - comparison else comparison)"

fun insert_sorted :: "('a \<Rightarrow> 'a \<Rightarrow> int) \<Rightarrow> 'a \<Rightarrow> 'a list \<Rightarrow> 'a list" where
  "insert_sorted cmp x [] = [x]"
| "insert_sorted cmp x (y # ys) =
     (if cmp x y \<le> 0 then x # y # ys else y # insert_sorted cmp x ys)"

definition array_sort :: "('a \<Rightarrow> 'a \<Rightarrow> int) \<Rightarrow> 'a list \<Rightarrow> 'a list" where
  "array_sort cmp xs = foldr (insert_sorted cmp) xs []"

definition sortProducts ::
  "engine \<Rightarrow> sort_column \<Rightarrow> sort_direction \<Rightarrow> ('a product_scheme) list
     \<Rightarrow> ('a product_scheme) list" where
  "sortProducts e sortColumn sortBy filtered =
     (if sortBy \<noteq> NoSort then array_sort (comparator e sortColumn sortBy) filtered
      else filtered)"

subsection \<open>The whole view\<close>

definition filteredProducts ::
  "engine \<Rightarrow> product list \<Rightarrow> jsstring \<Rightarrow> sort_direction \<Rightarrow> sort_column \<Rightarrow> jsstring
     \<Rightarrow> annotated list" where
  "filteredProducts e products searchTerm sortBy sortColumn selectedDate =
     sortProducts e sortColumn sortBy
       (annotate (aggregate (textFilter e searchTerm (dateFilter selectedDate products))))"

section \<open>The view with the exceptions of the host language\<close>

text \<open>
  The view reads the fields of its records without checking them.  In the host language
  reading a field that an object lacks yields \<^verbatim>\<open>undefined\<close>, and calling a method on
  \<^verbatim>\<open>undefined\<close> throws a \<^verbatim>\<open>TypeError\<close>, which leaves the callback, the array method that
  called it, and the view.  This section models the same code once more, on objects whose
  string fields may be missing (\<open>None\<close> is \<^verbatim>\<open>undefined\<close>), with a result that is either
  the exception thrown or the value returned.

  The method calls on a field are \<^verbatim>\<open>product.name.toLowerCase()\<close> in the text filter and
  \<^verbatim>\<open>a.name.toLowerCase()\<close>, \<^verbatim>\<open>b.name.toLowerCase()\<close> in the comparator.  The other uses
  of a field accept \<^verbatim>\<open>undefined\<close>: \<^verbatim>\<open>===\<close> is false for it, a template literal and a
  property key print it as \<open>undefined\<close>, and \<^verbatim>\<open>String(quantityStr || '')\<close> makes the empty
  string of it.  The results of \<^verbatim>\<open>match\<close> are tested before they are used, and the
  search text, the sort direction, the sort column and the selected date are strings of
  the component's state.
\<close>

datatype exception = TypeError

record object =
  id_field :: nat
  name_field :: "jsstring option"
  quantity_field :: "jsstring option"
  originalQuantity_field :: "jsstring option"
  date_field :: "jsstring option"
  uniqueKey_field :: "jsstring option"

record annotated_object = object +
  duplicateCount_field :: jsvalue
  isDuplicate_field :: bool

definition call_toLowerCase :: "engine \<Rightarrow> jsstring option \<Rightarrow> exception + jsstring" where
  "call_toLowerCase e receiver =
     (case receiver of None \<Rightarrow> Inl TypeError | Some s \<Rightarrow> Inr (toLowerCase e s))"

definition template :: "jsstring option \<Rightarrow> jsstring" where
  "template v = (case v of None \<Rightarrow> js ''undefined'' | Some s \<Rightarrow> s)"

text \<open>
  \<^verbatim>\<open>Array.prototype.filter\<close> with a callback that may throw: the elements are visited in
  order, and the first exception ends the call.
\<close>

fun filter_throwing :: "('a \<Rightarrow> exception + bool) \<Rightarrow> 'a list \<Rightarrow> exception + 'a list" where
  "filter_throwing f [] = Inr []"
| "filter_throwing f (x # xs) =
     (case f x of
        Inl thrown \<Rightarrow> Inl thrown
      | Inr keep \<Rightarrow>
          (case filter_throwing f xs of
             Inl thrown \<Rightarrow> Inl thrown
           | Inr ys \<Rightarrow> Inr (if keep then x # ys else ys)))"

definition dateFilter_obj :: "jsstring \<Rightarrow> ('a object_scheme) list \<Rightarrow> ('a object_scheme) list" where
  "dateFilter_obj selectedDate products =
     filter (\<lambda>product. date_field product = Some selectedDate) products"

definition textFilter_obj ::
  "engine \<Rightarrow> jsstring \<Rightarrow> ('a object_scheme) list \<Rightarrow> exception + ('a object_scheme) list" where
  "textFilter_obj e searchTerm filtered =
     (if searchTerm \<noteq> []
      then filter_throwing (\<lambda>product.
             case call_toLowerCase e (name_field product) of
               Inl thrown \<Rightarrow> Inl thrown
             | Inr lowered \<Rightarrow> Inr (string_includes lowered (toLowerCase e searchTerm))) filtered
      else Inr filtered)"

text \<open>
  The aggregator and the annotator call no method on a field.
\<close>

definition group_key_obj :: "object \<Rightarrow> jsstring" where
  "group_key_obj product = template (name_field product) @ js ''-'' @ template (quantity_field product)"

definition combine_obj :: "object \<Rightarrow> object \<Rightarrow> object" where
  "combine_obj existing product =
     (let existingQuantity = parseQuantity (or_empty (quantity_field existing));
          newQuantity = parseQuantity (or_empty (quantity_field product));
          combinedQuantity = number_add existingQuantity newQuantity;
          unit = getUnit (or_empty (quantity_field product));
          text = Number_toString combinedQuantity @ js '' '' @ unit
      in existing\<lparr>quantity_field := Some text, originalQuantity_field := Some text\<rparr>)"

definition group_step_obj ::
  "(jsstring \<times> object) list \<Rightarrow> object \<Rightarrow> (jsstring \<times> object) list" where
  "group_step_obj groupedProducts product =
     (let key = group_key_obj product in
      case map_of groupedProducts key of
        Some existing \<Rightarrow> AList.update key (combine_obj existing product) groupedProducts
      | None \<Rightarrow> groupedProducts @ [(key, product)])"

definition aggregate_obj :: "object list \<Rightarrow> object list" where
  "aggregate_obj filtered = map snd (foldl group_step_obj [] filtered)"

definition count_step_obj :: "(jsstring \<rightharpoonup> jsvalue) \<Rightarrow> object \<Rightarrow> (jsstring \<rightharpoonup> jsvalue)" where
  "count_step_obj nameCounts product =
     set_property nameCounts (template (name_field product))
       (or_zero_plus_one (get_property nameCounts (template (name_field product))))"

definition annotate_obj :: "object list \<Rightarrow> annotated_object list" where
  "annotate_obj filtered =
     (let nameCounts = foldl count_step_obj Map.empty filtered in
      map (\<lambda>product.
            \<lparr> id_field = id_field product, name_field = name_field product,
              quantity_field = quantity_field product,
              originalQuantity_field = originalQuantity_field product,
              date_field = date_field product, uniqueKey_field = uniqueKey_field product,
              duplicateCount_field = get_property nameCounts (template (name_field product)),
              isDuplicate_field =
                greater_than_one (get_property nameCounts (template (name_field product))) \<rparr>)
        filtered)"

text \<open>
  The comparator lower-cases the name of \<open>a\<close>, then the name of \<open>b\<close>.  The sort calls it
  for every element of a list of two or more elements; an exception of the comparator
  ends the sort.
\<close>

definition comparator_obj ::
  "engine \<Rightarrow> sort_column \<Rightarrow> sort_direction \<Rightarrow> 'a object_scheme \<Rightarrow> 'a object_scheme
     \<Rightarrow> exception + int" where
  "comparator_obj e sortColumn sortBy a b =
     (case (case sortColumn of
              NameColumn \<Rightarrow>
                (case call_toLowerCase e (name_field a) of
                   Inl thrown \<Rightarrow> Inl thrown
                 | Inr lowered_a \<Rightarrow>
                     (case call_toLowerCase e (name_field b) of
                        Inl thrown \<Rightarrow> Inl thrown
                      | Inr lowered_b \<Rightarrow> Inr (localeCompare e lowered_a lowered_b)))
            | QuantityColumn \<Rightarrow>
                Inr (number_sub_sign (parseQuantity (or_empty (quantity_field a)))
                       (parseQuantity (or_empty (quantity_field b))))) of
        Inl thrown \<Rightarrow> Inl thrown
      | Inr comparison \<Rightarrow> Inr (if sortBy = Desc then - comparison else comparison))"

fun insert_sorted_throwing ::
  "('a \<Rightarrow> 'a \<Rightarrow> exception + int) \<Rightarrow> 'a \<Rightarrow> 'a list \<Rightarrow> exception + 'a list" where
  "insert_sorted_throwing cmp x [] = Inr [x]"
| "insert_sorted_throwing cmp x (y # ys) =
     (case cmp x y of
        Inl thrown \<Rightarrow> Inl thrown
      | Inr c \<Rightarrow>
          if c \<le> 0 then Inr (x # y # ys)
          else (case insert_sorted_throwing cmp x ys of
                  Inl thrown \<Rightarrow> Inl thrown
                | Inr zs \<Rightarrow> Inr (y # zs)))"

fun array_sort_throwing :: "('a \<Rightarrow> 'a \<Rightarrow> exception + int) \<Rightarrow> 'a list \<Rightarrow> exception + 'a list" where
  "array_sort_throwing cmp [] = Inr []"
| "array_sort_throwing cmp (x # xs) =
     (case array_sort_throwing cmp xs of
        Inl thrown \<Rightarrow> Inl thrown
      | Inr ys \<Rightarrow> insert_sorted_throwing cmp x ys)"

definition sortProducts_obj ::
  "engine \<Rightarrow> sort_column \<Rightarrow> sort_direction \<Rightarrow> ('a object_scheme) list
     \<Rightarrow> exception + ('a object_scheme) list" where
  "sortProducts_obj e sortColumn sortBy filtered =
     (if sortBy \<noteq> NoSort then array_sort_throwing (comparator_obj e sortColumn sortBy) filtered
      else Inr filtered)"

definition filteredProducts_obj ::
  "engine \<Rightarrow> object list \<Rightarrow> jsstring \<Rightarrow> sort_direction \<Rightarrow> sort_column \<Rightarrow> jsstring
     \<Rightarrow> exception + annotated_object list" where
  "filteredProducts_obj e products searchTerm sortBy sortColumn selectedDate =
     (case textFilter_obj e searchTerm (dateFilter_obj selectedDate products) of
        Inl thrown \<Rightarrow> Inl thrown
      | Inr filtered \<Rightarrow>
          sortProducts_obj e sortColumn sortBy (annotate_obj (aggregate_obj filtered)))"

section \<open>Notions of the specification\<close>

text \<open>
  The specification's words: the maximal runs of decimal digits of a string, from left to
  right.  \<open>digit_runs s ds\<close> holds when \<open>ds\<close> lists them: each run is non-empty, consists
  of digits, is preceded by a digit-free stretch and is followed by the end of the string
  or by a character that is not a digit.
\<close>

inductive digit_runs :: "jsstring \<Rightarrow> jsstring list \<Rightarrow> bool" where
  no_run: "\<not> list_ex is_digit s \<Longrightarrow> digit_runs s []"
| run: "\<not> list_ex is_digit pre \<Longrightarrow> d \<noteq> [] \<Longrightarrow> list_all is_digit d \<Longrightarrow>
        post = [] \<or> \<not> is_digit (hd post) \<Longrightarrow> digit_runs post ds \<Longrightarrow>
        digit_runs (pre @ d @ post) (d # ds)"

text \<open>
  The specification's words: a token occurs case-insensitively at position \<open>i\<close> of a
  string when the string holds there, letter for letter, the letters of the token, each
  in lower case or in upper case.  The tokens are written in lower case.  \<open>capital\<close> is
  the upper-case form of a lower-case letter of the Turkish alphabet as \<^verbatim>\<open>toUpperCase\<close>
  gives it, by code units: the ASCII letters \<open>a\<close> to \<open>z\<close> (97 to 122) lie 32 above their
  capitals; the capital of \<open>\u00e7\<close> (231) is 199, of \<open>\u011f\<close> (287) is 286, of \<open>\u00f6\<close> (246) is
  214, of \<open>\u015f\<close> (351) is 350, of \<open>\u00fc\<close> (252) is 220, and the capital of the dotless
  \<open>\u0131\<close> (305) is the letter \<open>I\<close> (73).
\<close>

definition capital :: "nat \<Rightarrow> nat" where
  "capital c =
     (if 97 \<le> c \<and> c \<le> 122 then c - 32
      else if c = 231 then 199
      else if c = 287 then 286
      else if c = 246 then 214
      else if c = 351 then 350
      else if c = 252 then 220
      else if c = 305 then 73
      else c)"

definition same_letter :: "nat \<Rightarrow> nat \<Rightarrow> bool" where
  "same_letter p c = (c = p \<or> c = capital p)"

definition occurs_at :: "jsstring \<Rightarrow> nat \<Rightarrow> jsstring \<Rightarrow> bool" where
  "occurs_at t i s =
     (i + length t \<le> length s \<and> list_all2 same_letter t (take (length t) (drop i s)))"

text \<open>
  A row survives when its resolved name and its resolved quantity are both non-empty after
  trimming.
\<close>

definition survives :: "rawrow \<Rightarrow> bool" where
  "survives row = (trim (productName row) \<noteq> [] \<and> trim (quantity_of row) \<noteq> [])"

text \<open>
  The magnitude of a quantity text as a natural number: the sum of the base-10 values of
  its maximal digit runs (which the global digit match lists, see \<open>digit_runs\<close>); and the
  total magnitude of a record list.
\<close>

definition magnitude :: "jsstring \<Rightarrow> nat" where
  "magnitude s = sum_list (map decimal_value (match_digits s))"

definition total_magnitude :: "product list \<Rightarrow> nat" where
  "total_magnitude ps = sum_list (map (\<lambda>p. magnitude (quantity p)) ps)"

text \<open>
  The keys in the order in which they are first seen; the members of a key, in encounter
  order; the sum of \<open>parseQuantity\<close> over the members, as the host language adds; and the
  record of a group: its only member if there is one, else its first member with the
  quantity text "sum, space, unit of the last member".
\<close>

definition first_seen :: "'a list \<Rightarrow> 'a list" where
  "first_seen ks = rev (remdups (rev ks))"

definition members :: "jsstring \<Rightarrow> product list \<Rightarrow> product list" where
  "members k ps = filter (\<lambda>p. group_key p = k) ps"

definition summed :: "product list \<Rightarrow> number" where
  "summed ms = foldl number_add (Fin 0) (map (\<lambda>m. parseQuantity (quantity m)) ms)"

definition merged_quantity :: "product list \<Rightarrow> jsstring" where
  "merged_quantity ms = Number_toString (summed ms) @ js '' '' @ getUnit (quantity (last ms))"

definition merged :: "product list \<Rightarrow> product" where
  "merged ms =
     (if length ms = 1 then hd ms
      else (hd ms)\<lparr>quantity := merged_quantity ms, originalQuantity := merged_quantity ms\<rparr>)"

text \<open>
  The number of records of a list that carry a given name.
\<close>

definition count_name :: "jsstring \<Rightarrow> product list \<Rightarrow> nat" where
  "count_name n xs = length (filter (\<lambda>q. name q = n) xs)"

text \<open>
  A comparator is strict on a set when it never returns 0 for two different elements, its
  sign flips when its arguments are swapped, and "negative" is transitive.
\<close>

definition strict_on :: "'a set \<Rightarrow> ('a \<Rightarrow> 'a \<Rightarrow> int) \<Rightarrow> bool" where
  "strict_on S cmp =
     ((\<forall>a \<in> S. \<forall>b \<in> S. a \<noteq> b \<longrightarrow> cmp a b \<noteq> 0) \<and>
      (\<forall>a \<in> S. \<forall>b \<in> S. (cmp a b < 0) = (0 < cmp b a)) \<and>
      (\<forall>a \<in> S. \<forall>b \<in> S. \<forall>c \<in> S. cmp a b < 0 \<longrightarrow> cmp b c < 0 \<longrightarrow> cmp a c < 0))"

section \<open>Auxiliary notions of the proofs\<close>

text \<open>
  The lower-case partner of a code unit among the letters of the vocabulary, and the
  letters that occur in the vocabulary.
\<close>

definition fold_case :: "nat \<Rightarrow> nat" where
  "fold_case c =
     (if 65 \<le> c \<and> c \<le> 90 then c + 32 else if c = 199 then 231 else if c = 286 then 287 else c)"

definition token_chars :: "nat set" where
  "token_chars = {97 .. 122} \<union> {231, 287, 305}"

text \<open>
  The alternative \<open>t\<close> of the regular expression matches at position \<open>i\<close> of a string.
\<close>

definition matches_at :: "jsstring \<Rightarrow> nat \<Rightarrow> jsstring \<Rightarrow> bool" where
  "matches_at t i s =
     (i + length t \<le> length s \<and> list_all2 ci_char t (take (length t) (drop i s)))"

text \<open>
  The association list the aggregator is shown to build: the keys in first-seen order,
  each with the record of its group.
\<close>

definition groups :: "product list \<Rightarrow> (jsstring \<times> product) list" where
  "groups ps = map (\<lambda>k. (k, merged (members k ps))) (first_seen (map group_key ps))"

text \<open>
  The magnitudes of the members of every key sum to at most \<open>2^53 - 1\<close>: the sums the
  aggregator computes for its groups are then exact.
\<close>

definition exact_groups :: "product list \<Rightarrow> bool" where
  "exact_groups ps =
     (\<forall>p \<in> set ps. total_magnitude (members (group_key p) ps) \<le> MAX_SAFE_INTEGER)"

text \<open>
  The key fixes the name among the records of a set; and the entries of an association
  list stem from records of the set: each carries the key and the name of one of them.
\<close>

definition key_fixes_name :: "product set \<Rightarrow> bool" where
  "key_fixes_name S = (\<forall>p \<in> S. \<forall>q \<in> S. group_key p = group_key q \<longrightarrow> name p = name q)"

definition entries_from :: "product set \<Rightarrow> (jsstring \<times> product) list \<Rightarrow> bool" where
  "entries_from S g = (\<forall>(k, e) \<in> set g. \<exists>m \<in> S. group_key m = k \<and> name m = name e)"

text \<open>
  A record of the normalizer as an object: all its fields are present.
\<close>

definition object_of :: "product \<Rightarrow> object" where
  "object_of p =
     \<lparr> id_field = id_num p, name_field = Some (name p), quantity_field = Some (quantity p),
       originalQuantity_field = Some (originalQuantity p), date_field = Some (date p),
       uniqueKey_field = Some (uniqueKey p) \<rparr>"

definition annotated_object_of :: "annotated \<Rightarrow> annotated_object" where
  "annotated_object_of p =
     \<lparr> id_field = id_num p, name_field = Some (name p), quantity_field = Some (quantity p),
       originalQuantity_field = Some (originalQuantity p), date_field = Some (date p),
       uniqueKey_field = Some (uniqueKey p), duplicateCount_field = duplicateCount p,
       isDuplicate_field = isDuplicate p \<rparr>"

section \<open>A concrete engine and concrete inputs\<close>

text \<open>
  On strings of ASCII characters every engine lower-cases \<open>A\<close> to \<open>Z\<close> and nothing else, and
  on strings of lower-case ASCII letters the Turkish collation is the order of the code
  units.  \<open>ascii_engine\<close> is an engine that behaves so; it serves to run the model on
  concrete inputs.
\<close>

fun compare_units :: "jsstring \<Rightarrow> jsstring \<Rightarrow> int" where
  "compare_units [] [] = 0"
| "compare_units [] (y # ys) = - 1"
| "compare_units (x # xs) [] = 1"
| "compare_units (x # xs) (y # ys) =
     (if x < y then - 1 else if y < x then 1 else compare_units xs ys)"

definition ascii_engine :: engine where
  "ascii_engine =
     \<lparr> toLowerCase = map (\<lambda>c. if 65 \<le> c \<and> c \<le> 90 then c + 32 else c),
       localeCompare = compare_units \<rparr>"

text \<open>
  \<open>order_line i n q\<close> is the record the normalizer makes of a row whose trimmed fields are
  \<open>n\<close> and \<open>q\<close> and to which it gives the id \<open>i\<close>.  The lists below are the inputs on which
  the model is run.
\<close>

definition order_line :: "nat \<Rightarrow> jsstring \<Rightarrow> jsstring \<Rightarrow> product" where
  "order_line i n q =
     \<lparr> id_num = i, name = n, quantity = q, originalQuantity = q, date = js ''2025-08-26'',
       uniqueKey = n @ js ''-'' @ q \<rparr>"

text \<open>
  Two raw rows; the name of the first one is blank.
\<close>

definition two_rows :: "rawrow list" where
  "two_rows =
     [[[252, 114, 252, 110] \<mapsto> js '' '', js ''miktar'' \<mapsto> js ''1 kg''],
      [[220, 114, 252, 110] \<mapsto> js '' Elma'', js ''Miktar'' \<mapsto> js ''2 kg '']]"

text \<open>
  Two order lines with different names and different quantity texts: \<open>Biber\<close> with
  \<open>1-2 kasa\<close>, and \<open>Biber-1\<close> with \<open>2 kasa\<close>.
\<close>

definition biber_lines :: "product list" where
  "biber_lines =
     [order_line 1 (js ''Biber'') (js ''1-2 kasa''), order_line 2 (js ''Biber-1'') (js ''2 kasa'')]"

definition constructor_lines :: "product list" where
  "constructor_lines =
     [order_line 1 (js ''constructor'') (js ''5 kg''),
      order_line 2 (js ''constructor'') (js ''3 kasa'')]"

definition domates_lines :: "product list" where
  "domates_lines =
     [order_line 1 (js ''Domates'') (js ''5 kg''), order_line 2 (js ''Domates'') (js ''3 kasa'')]"

text \<open>
  The rows of the end-to-end example.
\<close>

definition elma_rows :: "rawrow list" where
  "elma_rows =
     [[[252, 114, 252, 110] \<mapsto> js ''Elma'', js ''miktar'' \<mapsto> js ''2 kg''],
      [[252, 114, 252, 110] \<mapsto> js ''Elma'', js ''miktar'' \<mapsto> js ''3 kg''],
      [[252, 114, 252, 110] \<mapsto> js ''Armut'', js ''miktar'' \<mapsto> js ''1 adet'']]"

definition elma_lines :: "product list" where
  "elma_lines =
     [order_line 1 (js ''Elma'') (js ''2 kg''), order_line 2 (js ''Elma'') (js ''2 kg''),
      order_line 3 (js ''Elma'') (js ''4 kg'')]"

definition case_lines :: "product list" where
  "case_lines = [order_line 1 (js ''Elma'') (js ''2 kg''), order_line 2 (js ''elma'') (js ''3 kg'')]"

definition fruit_lines :: "product list" where
  "fruit_lines = [order_line 1 (js ''Elma'') (js ''2 kg''), order_line 2 (js ''Armut'') (js ''1 adet'')]"

definition large_lines :: "product list" where
  "large_lines =
     [order_line 1 (js ''Un'') (js ''9007199254740991 kg''),
      order_line 2 (js ''Un'') (js ''9007199254740991 kg''),
      order_line 3 (js ''Un'') (js ''9007199254740991 kg'')]"

definition uneven_lines :: "product list" where
  "uneven_lines =
     [order_line 1 (js ''Un'') (js ''1 kg''),
      order_line 2 (js ''Tuz'') (js ''9007199254740992 kg''),
      order_line 3 (js ''Un'') (js ''1 kg'')]"

text \<open>
  An object without a name.
\<close>

definition nameless :: object where
  "nameless =
     \<lparr> id_field = 1, name_field = None, quantity_field = Some (js ''1 kg''),
       originalQuantity_field = Some (js ''1 kg''), date_field = Some (js ''2025-08-26''),
       uniqueKey_field = None \<rparr>"

section \<open>Unfolding the model on concrete inputs\<close>

lemmas parser_defs =
  js_def is_digit_def parseQuantity_def parseInt_def decimal_value_def to_double_def
  getUnit_def unit_tokens_def matches_here_def ci_char_def case_variants_def
  Number_toString_def digits.simps

lemmas normalizer_defs =
  processedProducts_def make_product_def productName_def quantity_of_def js_or_def
  or_empty_def trim_def is_white_space_def enumerate_eq_zip

lemmas view_defs =
  aggregate_def group_step_def group_key_def combine_def annotate_def count_step_def
  get_property_def set_property_def object_prototype_keys_def dateFilter_def textFilter_def
  ascii_engine_def order_line_def Let_def

section \<open>Claim C3: the magnitude of a quantity text\<close>

subsection \<open>Facts about the number model\<close>

lemma to_double_safe: "n \<le> MAX_SAFE_INTEGER \<Longrightarrow> to_double n = Fin n"
  by (simp add: to_double_def MAX_SAFE_INTEGER_def)

lemma foldl_number_add_safe:
  "a + sum_list (map decimal_value ds) \<le> MAX_SAFE_INTEGER \<Longrightarrow>
   foldl (\<lambda>sum num. number_add sum (parseInt num)) (Fin a) ds
     = Fin (a + sum_list (map decimal_value ds))"
proof (induction ds arbitrary: a)
  case Nil
  then show ?case by simp
next
  case (Cons d ds)
  have d: "decimal_value d \<le> MAX_SAFE_INTEGER" and ad: "a + decimal_value d \<le> MAX_SAFE_INTEGER"
    using Cons.prems by simp_all
  have step: "number_add (Fin a) (parseInt d) = Fin (a + decimal_value d)"
    by (simp add: parseInt_def to_double_safe [OF d] to_double_safe [OF ad])
  have "(a + decimal_value d) + sum_list (map decimal_value ds) \<le> MAX_SAFE_INTEGER"
    using Cons.prems by (simp add: add.assoc)
  from Cons.IH [OF this] show ?case
    by (simp add: step add.assoc)
qed

subsection \<open>The global digit match finds the maximal runs\<close>

lemma match_digits_skip:
  "\<not> list_ex is_digit pre \<Longrightarrow> match_digits (pre @ s) = match_digits s"
  by (induction pre) simp_all

lemma match_digits_none: "\<not> list_ex is_digit s \<Longrightarrow> match_digits s = []"
  using match_digits_skip [of s "[]"] by simp

lemma takeWhile_run:
  "list_all is_digit d \<Longrightarrow> post = [] \<or> \<not> is_digit (hd post) \<Longrightarrow>
   takeWhile is_digit (d @ post) = d"
  by (cases post) (simp_all add: takeWhile_append2 list_all_iff)

lemma dropWhile_run:
  "list_all is_digit d \<Longrightarrow> post = [] \<or> \<not> is_digit (hd post) \<Longrightarrow>
   dropWhile is_digit (d @ post) = post"
  by (cases post) (simp_all add: dropWhile_append2 list_all_iff)

lemma match_digits_run:
  assumes "d \<noteq> []" "list_all is_digit d" "post = [] \<or> \<not> is_digit (hd post)"
  shows "match_digits (d @ post) = d # match_digits post"
proof -
  from assms(1) obtain c d' where d: "d = c # d'" by (cases d) auto
  with assms(2) have c: "is_digit c" and d': "list_all is_digit d'" by simp_all
  have "takeWhile is_digit (c # d' @ post) = c # d'"
    using takeWhile_run [OF assms(2,3)] d by simp
  moreover have "dropWhile is_digit (d' @ post) = post"
    using dropWhile_run [OF d' assms(3)] .
  ultimately show ?thesis using c d by simp
qed

lemma digit_runs_match: "digit_runs s ds \<Longrightarrow> match_digits s = ds"
proof (induction rule: digit_runs.induct)
  case (no_run s)
  then show ?case by (rule match_digits_none)
next
  case (run pre d post ds)
  then show ?case
    by (simp add: match_digits_skip match_digits_run)
qed

lemma digit_runs_Cons:
  assumes "\<not> is_digit c" "digit_runs cs ds"
  shows "digit_runs (c # cs) ds"
  using assms(2)
proof (cases rule: digit_runs.cases)
  case no_run
  with assms(1) show ?thesis by (simp add: digit_runs.no_run)
next
  case (run pre d post ds')
  have "digit_runs ((c # pre) @ d @ post) (d # ds')"
    using run assms(1) by (intro digit_runs.run) simp_all
  with run show ?thesis by simp
qed

lemma magnitude_digit_runs: "digit_runs s ds \<Longrightarrow> magnitude s = sum_list (map decimal_value ds)"
  by (simp add: magnitude_def digit_runs_match)

lemma digit_runs_total: "digit_runs s (match_digits s)"
proof (induction s rule: match_digits.induct)
  case 1
  show ?case by (simp add: digit_runs.no_run)
next
  case (2 c cs)
  show ?case
  proof (cases "is_digit c")
    case True
    let ?d = "takeWhile is_digit (c # cs)"
    let ?post = "dropWhile is_digit cs"
    have post: "?post = [] \<or> \<not> is_digit (hd ?post)"
      using hd_dropWhile [of is_digit cs] by blast
    have "digit_runs ([] @ ?d @ ?post) (?d # match_digits ?post)"
    proof (rule digit_runs.run)
      show "\<not> list_ex is_digit []" by simp
      show "?d \<noteq> []" using True by simp
      show "list_all is_digit ?d"
        by (simp add: list_all_iff) (meson set_takeWhileD)
      show "?post = [] \<or> \<not> is_digit (hd ?post)" by (rule post)
      show "digit_runs ?post (match_digits ?post)" using "2.IH"(1) [OF True] .
    qed
    moreover have "?d @ ?post = c # cs" using True by simp
    ultimately show ?thesis using True by simp
  next
    case False
    with "2.IH"(2) show ?thesis by (simp add: digit_runs_Cons)
  qed
qed

subsection \<open>Claim C3\<close>

text \<open>
  C3 (as amended).  Every string has its list of maximal digit runs; whenever the base-10
  values of these runs sum to at most \<open>2^53 - 1\<close>, \<open>parseQuantity\<close> returns exactly that
  sum; it returns 0 when the string has no digit; and
  \<open>parseQuantity "3 kg 2 adet" = 5\<close>, \<open>parseQuantity "kasa" = 0\<close>, \<open>parseQuantity "" = 0\<close>.
\<close>

theorem parseQuantity_sums_digit_runs:
  "(\<exists>ds. digit_runs s ds) \<and>
   (\<forall>ds. digit_runs s ds \<and> sum_list (map decimal_value ds) \<le> MAX_SAFE_INTEGER
      \<longrightarrow> parseQuantity s = Fin (sum_list (map decimal_value ds))) \<and>
   (\<not> list_ex is_digit s \<longrightarrow> parseQuantity s = Fin 0) \<and>
   parseQuantity (js ''3 kg 2 adet'') = Fin 5 \<and>
   parseQuantity (js ''kasa'') = Fin 0 \<and>
   parseQuantity (js '''') = Fin 0"
proof -
  have ex: "\<exists>ds. digit_runs s ds"
    using digit_runs_total by blast
  have sum: "parseQuantity s = Fin (sum_list (map decimal_value ds))"
    if "digit_runs s ds" "sum_list (map decimal_value ds) \<le> MAX_SAFE_INTEGER" for ds
  proof -
    have m: "match_digits s = ds" using that(1) by (rule digit_runs_match)
    have "foldl (\<lambda>sum num. number_add sum (parseInt num)) (Fin 0) ds
            = Fin (0 + sum_list (map decimal_value ds))"
      using that(2) by (intro foldl_number_add_safe) simp
    then show ?thesis
      by (cases ds) (simp_all add: parseQuantity_def m)
  qed
  have none: "parseQuantity s = Fin 0" if "\<not> list_ex is_digit s"
    using that by (simp add: parseQuantity_def match_digits_none)
  have e1: "parseQuantity (js ''3 kg 2 adet'') = Fin 5"
    by (simp add: parseQuantity_def js_def is_digit_def parseInt_def decimal_value_def
        to_double_def)
  have e2: "parseQuantity (js ''kasa'') = Fin 0"
    by (simp add: parseQuantity_def js_def is_digit_def)
  have e3: "parseQuantity (js '''') = Fin 0"
    by (simp add: parseQuantity_def js_def)
  from ex sum none e1 e2 e3 show ?thesis by blast
qed

text \<open>
  Witness: the string \<open>"3 kg 2 adet"\<close> has the runs \<open>"3"\<close> and \<open>"2"\<close>, of sum 5.
\<close>

theorem parseQuantity_sums_digit_runs_witness:
  "digit_runs (js ''3 kg 2 adet'') [js ''3'', js ''2''] \<and>
   sum_list (map decimal_value [js ''3'', js ''2'']) \<le> MAX_SAFE_INTEGER \<and>
   parseQuantity (js ''3 kg 2 adet'') = Fin (sum_list (map decimal_value [js ''3'', js ''2'']))"
proof -
  have "match_digits (js ''3 kg 2 adet'') = [js ''3'', js ''2'']"
    by (simp add: js_def is_digit_def)
  with digit_runs_total [of "js ''3 kg 2 adet''"]
  have r: "digit_runs (js ''3 kg 2 adet'') [js ''3'', js ''2'']" by simp
  have b: "sum_list (map decimal_value [js ''3'', js ''2'']) \<le> MAX_SAFE_INTEGER"
    by (simp add: decimal_value_def js_def MAX_SAFE_INTEGER_def)
  from parseQuantity_sums_digit_runs [of "js ''3 kg 2 adet''"] r b show ?thesis by blast
qed

text \<open>
  The claim as stated, for every string, fails: the single run of \<open>"9007199254740993"\<close>
  has the value \<open>2^53 + 1\<close>, which is not a double; \<^verbatim>\<open>parseInt\<close> returns \<open>2^53\<close>.
\<close>

theorem parseQuantity_sum_counterexample:
  "digit_runs (js ''9007199254740993'') [js ''9007199254740993''] \<and>
   sum_list (map decimal_value [js ''9007199254740993'']) = 9007199254740993 \<and>
   parseQuantity (js ''9007199254740993'') = Fin 9007199254740992"
proof -
  have m: "match_digits (js ''9007199254740993'') = [js ''9007199254740993'']"
    by (simp add: js_def is_digit_def)
  with digit_runs_total [of "js ''9007199254740993''"]
  have r: "digit_runs (js ''9007199254740993'') [js ''9007199254740993'']" by simp
  have v: "decimal_value (js ''9007199254740993'') = 9007199254740993"
    by (simp add: decimal_value_def js_def)
  have td: "to_double 9007199254740993 = Fin 9007199254740992"
    by (simp add: to_double_def bit_length.simps Let_def)
  have td': "to_double 9007199254740992 = Fin 9007199254740992"
    by (simp add: to_double_def bit_length.simps Let_def)
  have p: "parseQuantity (js ''9007199254740993'') = Fin 9007199254740992"
    by (simp add: parseQuantity_def m parseInt_def v td td')
  from r v p show ?thesis by simp
qed

section \<open>Claim C4: the unit of a quantity text\<close>

lemma unit_tokens_nonempty: "[] \<notin> set unit_tokens"
  by (simp add: unit_tokens_def js_def)

subsection \<open>Matching at one position\<close>

lemma ci_char_fold_case: "p \<in> token_chars \<Longrightarrow> ci_char p c \<longleftrightarrow> p = fold_case c"
  by (auto simp: token_chars_def ci_char_def case_variants_def fold_case_def)

lemma unit_tokens_chars: "t \<in> set unit_tokens \<Longrightarrow> set t \<subseteq> token_chars"
  by (auto simp: unit_tokens_def js_def token_chars_def)

lemma list_all2_fold_case:
  "set t \<subseteq> token_chars \<Longrightarrow> list_all2 ci_char t xs \<longleftrightarrow> t = map fold_case xs"
proof (induction t arbitrary: xs)
  case Nil
  then show ?case by auto
next
  case (Cons p t)
  then show ?case
    by (cases xs) (auto simp: ci_char_fold_case)
qed

lemma matches_here_prefix:
  assumes "t \<in> set unit_tokens"
  shows "matches_here t s \<longleftrightarrow> prefix t (map fold_case s)"
proof -
  have "matches_here t s \<longleftrightarrow> length t \<le> length s \<and> t = take (length t) (map fold_case s)"
    by (simp add: matches_here_def list_all2_fold_case [OF unit_tokens_chars [OF assms]] take_map)
  also have "\<dots> \<longleftrightarrow> prefix t (map fold_case s)"
    by (metis length_map prefix_length_le take_is_prefix append_eq_conv_conj prefix_def)
  finally show ?thesis .
qed

lemma unit_tokens_prefix_free:
  "t \<in> set unit_tokens \<Longrightarrow> u \<in> set unit_tokens \<Longrightarrow> prefix t u \<Longrightarrow> t = u"
  by (simp add: unit_tokens_def js_def) (elim disjE; simp)

lemma matches_here_unique:
  assumes "t \<in> set unit_tokens" "u \<in> set unit_tokens" "matches_here t s" "matches_here u s"
  shows "t = u"
proof -
  have "prefix t (map fold_case s)" "prefix u (map fold_case s)"
    using assms by (simp_all add: matches_here_prefix)
  then have "prefix t u \<or> prefix u t" by (rule prefix_same_cases)
  with assms(1,2) show ?thesis using unit_tokens_prefix_free by blast
qed

lemma match_alternatives_None:
  "match_alternatives ts s = None \<longleftrightarrow> (\<forall>t \<in> set ts. \<not> matches_here t s)"
  by (induction ts) auto

lemma match_alternatives_Some:
  "match_alternatives ts s = Some m \<Longrightarrow>
   \<exists>t \<in> set ts. matches_here t s \<and> m = take (length t) s"
  by (induction ts) (auto split: if_splits)

lemma match_alternatives_unit:
  assumes "t \<in> set unit_tokens" "matches_here t s"
  shows "match_alternatives unit_tokens s = Some (take (length t) s)"
proof (cases "match_alternatives unit_tokens s")
  case None
  with assms show ?thesis by (simp add: match_alternatives_None)
next
  case (Some m)
  from match_alternatives_Some [OF this] obtain u
    where u: "u \<in> set unit_tokens" "matches_here u s" "m = take (length u) s" by blast
  with assms have "u = t" by (auto dest: matches_here_unique)
  with u Some show ?thesis by simp
qed

subsection \<open>The first match is the leftmost one\<close>

lemma matches_at_0: "matches_at t 0 s = matches_here t s"
  by (simp add: matches_at_def matches_here_def)

lemma matches_at_Suc: "matches_at t (Suc i) (c # cs) = matches_at t i cs"
  by (simp add: matches_at_def)

lemma matches_at_Nil: "t \<noteq> [] \<Longrightarrow> \<not> matches_at t i []"
  by (simp add: matches_at_def)

lemma match_units_no_match:
  "(\<forall>i. \<forall>t \<in> set unit_tokens. \<not> matches_at t i s) \<Longrightarrow> match_units s = []"
proof (induction s)
  case Nil
  show ?case by simp
next
  case (Cons c cs)
  have "\<forall>t \<in> set unit_tokens. \<not> matches_here t (c # cs)"
    using Cons.prems matches_at_0 by blast
  then have none: "match_alternatives unit_tokens (c # cs) = None"
    by (simp add: match_alternatives_None)
  have "\<forall>i. \<forall>t \<in> set unit_tokens. \<not> matches_at t i cs"
    using Cons.prems matches_at_Suc by blast
  from Cons.IH [OF this] none show ?case by simp
qed

lemma match_units_first_match:
  "t \<in> set unit_tokens \<Longrightarrow> matches_at t i s \<Longrightarrow>
   (\<forall>j<i. \<forall>u \<in> set unit_tokens. \<not> matches_at u j s) \<Longrightarrow>
   \<exists>rest. match_units s = take (length t) (drop i s) # rest"
proof (induction i arbitrary: s)
  case 0
  from "0.prems"(1) unit_tokens_nonempty have "t \<noteq> []" by auto
  with "0.prems"(2) obtain c cs where s: "s = c # cs"
    by (cases s) (auto simp: matches_at_Nil)
  have "match_alternatives unit_tokens s = Some (take (length t) s)"
    using "0.prems" by (intro match_alternatives_unit) (simp_all add: matches_at_0)
  then show ?case by (simp add: s)
next
  case (Suc i)
  from Suc.prems(1) unit_tokens_nonempty have "t \<noteq> []" by auto
  with Suc.prems(2) obtain c cs where s: "s = c # cs"
    by (cases s) (auto simp: matches_at_Nil)
  have "\<forall>u \<in> set unit_tokens. \<not> matches_here u s"
    using Suc.prems(3) matches_at_0 by blast
  then have none: "match_alternatives unit_tokens (c # cs) = None"
    by (simp add: match_alternatives_None s)
  have occ: "matches_at t i cs" using Suc.prems(2) by (simp add: s matches_at_Suc)
  have "\<forall>j<i. \<forall>u \<in> set unit_tokens. \<not> matches_at u j cs"
  proof (intro allI impI ballI)
    fix j u
    assume "j < i" "u \<in> set unit_tokens"
    then have "\<not> matches_at u (Suc j) (c # cs)"
      using Suc.prems(3) by (simp add: s)
    then show "\<not> matches_at u j cs" by (simp add: matches_at_Suc)
  qed
  from Suc.IH [OF Suc.prems(1) occ this] none show ?case by (simp add: s)
qed

subsection \<open>What \<^verbatim>\<open>getUnit\<close> returns\<close>

text \<open>
  When the regular expression matches no token anywhere in the string, \<open>getUnit\<close> returns
  the default \<open>"adet"\<close>.  Otherwise it returns the text of the string at the first
  position where the expression matches a token.
\<close>

lemma getUnit_first_match:
  "((\<forall>i. \<forall>t \<in> set unit_tokens. \<not> matches_at t i s) \<longrightarrow> getUnit s = js ''adet'') \<and>
   (\<forall>i t. t \<in> set unit_tokens \<and> matches_at t i s \<and>
           (\<forall>j<i. \<forall>u \<in> set unit_tokens. \<not> matches_at u j s)
      \<longrightarrow> getUnit s = take (length t) (drop i s))"
proof -
  have a: "getUnit s = js ''adet''" if "\<forall>i. \<forall>t \<in> set unit_tokens. \<not> matches_at t i s"
    using match_units_no_match [OF that] by (simp add: getUnit_def)
  have b: "getUnit s = take (length t) (drop i s)"
    if "t \<in> set unit_tokens" "matches_at t i s"
       "\<forall>j<i. \<forall>u \<in> set unit_tokens. \<not> matches_at u j s" for i t
    using match_units_first_match [OF that] by (auto simp: getUnit_def)
  from a b show ?thesis by blast
qed

subsection \<open>Matches and case-insensitive occurrences\<close>

text \<open>
  The expression matches a letter of a token in lower case and in upper case, with one
  exception: it does not take the capital \<open>I\<close> for the dotless \<open>\u0131\<close>.
\<close>

lemma ci_char_same_letter:
  "p \<in> token_chars \<Longrightarrow> ci_char p c \<longleftrightarrow> same_letter p c \<and> \<not> (p = 305 \<and> c = 73)"
  by (auto simp: token_chars_def ci_char_def case_variants_def same_letter_def capital_def)

lemma list_all2_same_letter:
  "set t \<subseteq> token_chars \<Longrightarrow> 73 \<notin> set xs \<Longrightarrow>
   list_all2 ci_char t xs \<longleftrightarrow> list_all2 same_letter t xs"
proof (induction t arbitrary: xs)
  case Nil
  then show ?case by simp
next
  case (Cons p t)
  then show ?case
    by (cases xs) (auto simp: ci_char_same_letter)
qed

lemma matches_at_imp_occurs_at:
  assumes "t \<in> set unit_tokens" "matches_at t i s"
  shows "occurs_at t i s"
proof -
  have "list_all2 ci_char t xs \<Longrightarrow> list_all2 same_letter t xs" if "set t \<subseteq> token_chars" for xs
    using that
  proof (induction t arbitrary: xs)
    case Nil
    then show ?case by simp
  next
    case (Cons p t)
    then show ?case
      by (cases xs) (auto simp: ci_char_same_letter)
  qed
  with unit_tokens_chars [OF assms(1)] assms(2) show ?thesis
    by (simp add: matches_at_def occurs_at_def)
qed

lemma matches_at_occurs_at:
  assumes "t \<in> set unit_tokens" "73 \<notin> set s"
  shows "matches_at t i s \<longleftrightarrow> occurs_at t i s"
proof -
  have "73 \<notin> set (take (length t) (drop i s))"
    using assms(2) by (meson in_set_takeD in_set_dropD)
  with unit_tokens_chars [OF assms(1)] show ?thesis
    by (simp add: matches_at_def occurs_at_def list_all2_same_letter)
qed

text \<open>
  So for every string without the capital letter \<open>I\<close> the unit is what the specification
  says: the default when no token occurs case-insensitively, and otherwise the text at the
  first position where one occurs.
\<close>

lemma getUnit_first_occurrence:
  assumes "73 \<notin> set s"
  shows "((\<forall>i. \<forall>t \<in> set unit_tokens. \<not> occurs_at t i s) \<longrightarrow> getUnit s = js ''adet'') \<and>
   (\<forall>i t. t \<in> set unit_tokens \<and> occurs_at t i s \<and>
           (\<forall>j<i. \<forall>u \<in> set unit_tokens. \<not> occurs_at u j s)
      \<longrightarrow> getUnit s = take (length t) (drop i s))"
  using getUnit_first_match [of s] by (simp add: matches_at_occurs_at [OF _ assms])

lemma getUnit_examples:
  "getUnit (js ''12 Kasa'') = js ''Kasa'' \<and> getUnit (js ''7'') = js ''adet'' \<and>
   getUnit (js ''5 '' @ [115, 97, 108, 107, 305, 109]) = [115, 97, 108, 107, 305, 109] \<and>
   getUnit (js ''3 '' @ [199, 85, 86, 65, 76]) = [199, 85, 86, 65, 76]"
  by (simp add: getUnit_def unit_tokens_def js_def matches_here_def ci_char_def
      case_variants_def)

subsection \<open>Claim C4\<close>

text \<open>
  C4 (the code at the failing input).  In \<open>"5 SALKIM"\<close> the token \<open>salk\u0131m\<close> occurs
  case-insensitively at position 2, written in capitals, and no token occurs before it;
  the claim says that the unit is the text found there, \<open>"SALKIM"\<close>.  \<open>getUnit\<close> returns
  the default \<open>"adet"\<close>: the flag \<^verbatim>\<open>i\<close> of the regular expression does not take the capital
  \<open>I\<close> for the dotless \<open>\u0131\<close> of the token.
\<close>

theorem getUnit_capital_dotless_i:
  "[115, 97, 108, 107, 305, 109] \<in> set unit_tokens \<and>
   occurs_at [115, 97, 108, 107, 305, 109] 2 (js ''5 SALKIM'') \<and>
   list_all (\<lambda>t. \<not> occurs_at t 0 (js ''5 SALKIM'') \<and> \<not> occurs_at t 1 (js ''5 SALKIM''))
     unit_tokens \<and>
   take (length [115, 97, 108, 107, 305, 109 :: nat]) (drop 2 (js ''5 SALKIM'')) = js ''SALKIM'' \<and>
   getUnit (js ''5 SALKIM'') = js ''adet'' \<and>
   getUnit (js ''5 SALKIM'') \<noteq> js ''SALKIM''"
proof -
  have o: "occurs_at [115, 97, 108, 107, 305, 109] 2 (js ''5 SALKIM'')"
    by (simp add: occurs_at_def same_letter_def capital_def js_def)
  have n: "list_all (\<lambda>t. \<not> occurs_at t 0 (js ''5 SALKIM'') \<and> \<not> occurs_at t 1 (js ''5 SALKIM''))
     unit_tokens"
    by (simp add: unit_tokens_def occurs_at_def same_letter_def capital_def js_def)
  have g: "getUnit (js ''5 SALKIM'') = js ''adet''"
    by (simp add: getUnit_def unit_tokens_def js_def matches_here_def ci_char_def
        case_variants_def)
  from o n g show ?thesis by (simp add: unit_tokens_def js_def)
qed

section \<open>Claim C5: the normalizer\<close>

lemma enumerate_index: "enumerate 0 xs = map (\<lambda>i. (i, xs ! i)) [0 ..< length xs]"
  by (rule nth_equalityI) (simp_all add: nth_enumerate_eq)

lemma processedProducts_index:
  "processedProducts data =
     map (\<lambda>i. make_product (data ! i) i) (filter (\<lambda>i. survives (data ! i)) [0 ..< length data])"
  by (simp add: processedProducts_def enumerate_index filter_map comp_def survives_def
      make_product_def)

lemma id_num_make_product: "id_num (make_product row i) = i + 1"
  by (simp add: make_product_def)

text \<open>
  C5 (as amended).  The output lists, in input order, the records of exactly the rows
  that survive; every other row is dropped.  The record of the row at position \<open>i\<close>
  (counted from 0) carries the id \<open>i + 1\<close>, its position in the input, whether or not rows
  before it were dropped: the ids increase strictly along the output, and each record is
  the one made of the row its id points to.
\<close>

theorem processedProducts_rows:
  "processedProducts data =
     map (\<lambda>i. make_product (data ! i) i) (filter (\<lambda>i. survives (data ! i)) [0 ..< length data]) \<and>
   map id_num (processedProducts data) =
     map Suc (filter (\<lambda>i. survives (data ! i)) [0 ..< length data]) \<and>
   sorted_wrt (<) (map id_num (processedProducts data)) \<and>
   (\<forall>p \<in> set (processedProducts data).
      name p \<noteq> [] \<and> quantity p \<noteq> [] \<and> 1 \<le> id_num p \<and> id_num p \<le> length data \<and>
      p = make_product (data ! (id_num p - 1)) (id_num p - 1))"
proof -
  let ?is = "filter (\<lambda>i. survives (data ! i)) [0 ..< length data]"
  have ids: "map id_num (processedProducts data) = map Suc ?is"
    by (simp add: processedProducts_index id_num_make_product comp_def)
  have "sorted_wrt (<) ?is"
    by (rule sorted_wrt_filter) (simp add: sorted_wrt_upt)
  then have inc: "sorted_wrt (<) (map id_num (processedProducts data))"
    by (simp add: ids sorted_wrt_map)
  have mem: "name p \<noteq> [] \<and> quantity p \<noteq> [] \<and> 1 \<le> id_num p \<and> id_num p \<le> length data \<and>
      p = make_product (data ! (id_num p - 1)) (id_num p - 1)"
    if "p \<in> set (processedProducts data)" for p
  proof -
    from that obtain i where i: "i < length data" "survives (data ! i)"
      "p = make_product (data ! i) i"
      by (auto simp: processedProducts_index)
    then show ?thesis
      by (simp add: id_num_make_product) (simp add: make_product_def survives_def)
  qed
  from processedProducts_index ids inc mem show ?thesis by blast
qed

text \<open>
  Two rows, the first with a blank name: it is dropped, and the second keeps the id 2.
\<close>

lemma processedProducts_two_rows:
  "processedProducts two_rows = [order_line 2 (js ''Elma'') (js ''2 kg'')]"
  by (simp add: two_rows_def normalizer_defs order_line_def js_def)

theorem processedProducts_rows_witness:
  "processedProducts two_rows = [order_line 2 (js ''Elma'') (js ''2 kg'')] \<and>
   order_line 2 (js ''Elma'') (js ''2 kg'') \<in> set (processedProducts two_rows) \<and>
   order_line 2 (js ''Elma'') (js ''2 kg'') = make_product (two_rows ! 1) 1 \<and>
   map id_num (processedProducts two_rows) = [2]"
proof -
  have m: "order_line 2 (js ''Elma'') (js ''2 kg'') \<in> set (processedProducts two_rows)"
    by (simp add: processedProducts_two_rows)
  have "\<forall>p \<in> set (processedProducts two_rows).
          p = make_product (two_rows ! (id_num p - 1)) (id_num p - 1)"
    using processedProducts_rows [of two_rows] by blast
  with m have "order_line 2 (js ''Elma'') (js ''2 kg'')
      = make_product (two_rows ! (id_num (order_line 2 (js ''Elma'') (js ''2 kg'')) - 1))
          (id_num (order_line 2 (js ''Elma'') (js ''2 kg'')) - 1)"
    by blast
  then have "order_line 2 (js ''Elma'') (js ''2 kg'') = make_product (two_rows ! 1) 1"
    by (simp add: order_line_def)
  moreover have "map id_num (processedProducts two_rows) = [2]"
    by (simp add: processedProducts_two_rows order_line_def)
  ultimately show ?thesis using m processedProducts_two_rows by blast
qed

text \<open>
  The claim as stated fails: the ids of the survivors are not 1, 2, ... when a row was
  dropped.
\<close>

theorem processedProducts_ids_counterexample:
  "map id_num (processedProducts two_rows) = [2] \<and>
   map id_num (processedProducts two_rows) \<noteq> [1 ..< Suc (length (processedProducts two_rows))]"
  by (simp add: processedProducts_two_rows order_line_def)

section \<open>Claim C1: the group key\<close>

text \<open>
  C1 (the code at the failing input).  Both lines have the key \<open>Biber-1-2 kasa\<close>, because
  the key joins name and quantity with a \<open>-\<close> that either may contain.  The aggregator
  merges them into one record: the first line's, with the quantity \<open>5 kasa\<close>.
\<close>

theorem aggregate_merges_different_names:
  "map name biber_lines = [js ''Biber'', js ''Biber-1''] \<and>
   map quantity biber_lines = [js ''1-2 kasa'', js ''2 kasa''] \<and>
   map group_key biber_lines = [js ''Biber-1-2 kasa'', js ''Biber-1-2 kasa''] \<and>
   aggregate biber_lines =
     [(order_line 1 (js ''Biber'') (js ''1-2 kasa''))
        \<lparr>quantity := js ''5 kasa'', originalQuantity := js ''5 kasa''\<rparr>]"
  by (simp add: biber_lines_def view_defs parser_defs)

subsection \<open>Names without a hyphen\<close>

text \<open>
  The key separates name and quantity by \<open>-\<close> (code unit 45).  Among records whose names
  contain no \<open>-\<close> the key determines both fields.
\<close>

lemma append_separator_eq:
  "x \<notin> set a \<Longrightarrow> x \<notin> set b \<Longrightarrow> a @ x # c = b @ x # d \<Longrightarrow> a = b \<and> c = d"
proof (induction a arbitrary: b)
  case Nil
  then show ?case by (cases b) auto
next
  case (Cons y a)
  then show ?case by (cases b) auto
qed

lemma group_key_injective:
  assumes "45 \<notin> set (name p)" "45 \<notin> set (name q)" "group_key p = group_key q"
  shows "name p = name q \<and> quantity p = quantity q"
  using append_separator_eq [OF assms(1,2), of "quantity p" "quantity q"] assms(3)
  by (simp add: group_key_def js_def)

section \<open>Claims C2 and C8: what the aggregator computes\<close>

subsection \<open>Magnitudes in the exact range\<close>

lemma parseQuantity_magnitude:
  assumes "magnitude s \<le> MAX_SAFE_INTEGER"
  shows "parseQuantity s = Fin (magnitude s)"
proof -
  have "foldl (\<lambda>sum num. number_add sum (parseInt num)) (Fin 0) (match_digits s)
          = Fin (0 + sum_list (map decimal_value (match_digits s)))"
    using assms by (intro foldl_number_add_safe) (simp add: magnitude_def)
  then show ?thesis
    by (cases "match_digits s") (simp_all add: parseQuantity_def magnitude_def)
qed

lemma number_add_safe:
  "a + b \<le> MAX_SAFE_INTEGER \<Longrightarrow> number_add (Fin a) (Fin b) = Fin (a + b)"
  by (simp add: to_double_safe)

lemma Number_toString_safe: "n \<le> MAX_SAFE_INTEGER \<Longrightarrow> Number_toString (Fin n) = digits n"
  by (simp add: Number_toString_def MAX_SAFE_INTEGER_def)

lemma digits_all: "list_all is_digit (digits n)"
proof (induction n rule: digits.induct)
  case (1 n)
  show ?case
  proof (cases "n < 10")
    case True
    then show ?thesis by (subst digits.simps) (simp add: is_digit_def)
  next
    case False
    have "n mod 10 < 10" by simp
    then have "is_digit (48 + n mod 10)" unfolding is_digit_def by linarith
    with False "1.IH" show ?thesis by (subst digits.simps) simp
  qed
qed

lemma digits_nonempty: "digits n \<noteq> []"
  by (subst digits.simps) simp

lemma decimal_value_snoc: "decimal_value (ds @ [c]) = 10 * decimal_value ds + (c - 48)"
  by (simp add: decimal_value_def)

lemma decimal_value_digits: "decimal_value (digits n) = n"
proof (induction n rule: digits.induct)
  case (1 n)
  show ?case
  proof (cases "n < 10")
    case True
    then show ?thesis by (subst digits.simps) (simp add: decimal_value_def)
  next
    case False
    with "1.IH" show ?thesis
      by (subst digits.simps) (simp add: decimal_value_snoc)
  qed
qed

lemma magnitude_rendered:
  assumes "\<not> list_ex is_digit u"
  shows "magnitude (digits n @ js '' '' @ u) = n"
proof -
  have sp: "\<not> list_ex is_digit (js '' '' @ u)"
    using assms by (simp add: js_def is_digit_def)
  then have post: "js '' '' @ u = [] \<or> \<not> is_digit (hd (js '' '' @ u))"
    by (simp add: js_def is_digit_def)
  have "match_digits (digits n @ (js '' '' @ u)) = digits n # match_digits (js '' '' @ u)"
    using digits_nonempty digits_all post by (rule match_digits_run)
  then show ?thesis
    by (simp add: magnitude_def match_digits_none [OF sp] decimal_value_digits)
qed

subsection \<open>The unit text has no digit\<close>

lemma match_units_tokens:
  "u \<in> set (match_units s) \<Longrightarrow> \<exists>t \<in> set unit_tokens. list_all2 ci_char t u"
proof (induction s arbitrary: u rule: match_units.induct)
  case 1
  then show ?case by simp
next
  case (2 c cs)
  show ?case
  proof (cases "match_alternatives unit_tokens (c # cs)")
    case None
    with 2 show ?thesis by simp
  next
    case (Some m)
    from match_alternatives_Some [OF Some] obtain t where t: "t \<in> set unit_tokens"
      "matches_here t (c # cs)" "m = take (length t) (c # cs)" by blast
    from "2.prems" Some have "u = m \<or> u \<in> set (match_units (drop (length m) (c # cs)))"
      by simp
    then show ?thesis
    proof
      assume "u = m"
      with t show ?thesis by (auto simp: matches_here_def)
    next
      assume "u \<in> set (match_units (drop (length m) (c # cs)))"
      with "2.IH"(2) [OF Some] show ?thesis by blast
    qed
  qed
qed

lemma ci_char_no_digit: "p \<in> token_chars \<Longrightarrow> ci_char p c \<Longrightarrow> \<not> is_digit c"
  by (auto simp: token_chars_def ci_char_def case_variants_def is_digit_def split: if_splits)

lemma getUnit_no_digit: "\<not> list_ex is_digit (getUnit s)"
proof (cases "match_units s")
  case Nil
  then show ?thesis by (simp add: getUnit_def js_def is_digit_def)
next
  case (Cons u us)
  then have "u \<in> set (match_units s)" by simp
  from match_units_tokens [OF this] obtain t where t: "t \<in> set unit_tokens"
    "list_all2 ci_char t u" by blast
  have "\<not> is_digit c" if "c \<in> set u" for c
  proof -
    from that t(2) obtain p where "p \<in> set t" "ci_char p c"
      by (metis in_set_conv_nth list_all2_conv_all_nth)
    with unit_tokens_chars [OF t(1)] show ?thesis
      by (auto dest: ci_char_no_digit)
  qed
  then show ?thesis by (auto simp: getUnit_def Cons list_ex_iff)
qed

subsection \<open>Facts about keys, sums and merged records\<close>

lemma first_seen_snoc:
  "first_seen (ks @ [k]) = (if k \<in> set ks then first_seen ks else first_seen ks @ [k])"
  by (simp add: first_seen_def)

lemma set_first_seen: "set (first_seen ks) = set ks"
  by (simp add: first_seen_def)

lemma distinct_first_seen: "distinct (first_seen ks)"
  by (simp add: first_seen_def)

lemma foldl_number_add_magnitude:
  "a + total_magnitude ms \<le> MAX_SAFE_INTEGER \<Longrightarrow>
   foldl number_add (Fin a) (map (\<lambda>m. parseQuantity (quantity m)) ms)
     = Fin (a + total_magnitude ms)"
proof (induction ms arbitrary: a)
  case Nil
  show ?case by (simp add: total_magnitude_def)
next
  case (Cons m ms)
  have b: "magnitude (quantity m) \<le> MAX_SAFE_INTEGER"
    "a + magnitude (quantity m) \<le> MAX_SAFE_INTEGER"
    "(a + magnitude (quantity m)) + total_magnitude ms \<le> MAX_SAFE_INTEGER"
    using Cons.prems by (simp_all add: total_magnitude_def)
  show ?case
    using Cons.IH [OF b(3)]
    by (simp add: parseQuantity_magnitude [OF b(1)] to_double_safe [OF b(2)]
        total_magnitude_def add.assoc)
qed

lemma summed_safe:
  "total_magnitude ms \<le> MAX_SAFE_INTEGER \<Longrightarrow> summed ms = Fin (total_magnitude ms)"
  using foldl_number_add_magnitude [of 0 ms] by (simp add: summed_def)

lemma magnitude_merged:
  assumes "ms \<noteq> []" "total_magnitude ms \<le> MAX_SAFE_INTEGER"
  shows "magnitude (quantity (merged ms)) = total_magnitude ms"
proof (cases "length ms = 1")
  case True
  then obtain m where "ms = [m]" by (cases ms) auto
  then show ?thesis by (simp add: merged_def total_magnitude_def)
next
  case False
  then show ?thesis
    by (simp add: merged_def merged_quantity_def summed_safe [OF assms(2)]
        Number_toString_safe [OF assms(2)] magnitude_rendered [OF getUnit_no_digit])
qed

lemma merged_snoc:
  assumes "ms \<noteq> []" "total_magnitude (ms @ [p]) \<le> MAX_SAFE_INTEGER"
  shows "merged (ms @ [p]) = combine (merged ms) p"
proof -
  have tot: "total_magnitude (ms @ [p]) = total_magnitude ms + magnitude (quantity p)"
    by (simp add: total_magnitude_def)
  with assms(2) have b: "total_magnitude ms \<le> MAX_SAFE_INTEGER"
    "magnitude (quantity p) \<le> MAX_SAFE_INTEGER"
    "total_magnitude ms + magnitude (quantity p) \<le> MAX_SAFE_INTEGER"
    by simp_all
  have e: "parseQuantity (quantity (merged ms)) = Fin (total_magnitude ms)"
    using parseQuantity_magnitude [of "quantity (merged ms)"] b(1)
    by (simp add: magnitude_merged [OF assms(1) b(1)])
  have t: "Number_toString (number_add (parseQuantity (quantity (merged ms)))
              (parseQuantity (quantity p))) @ js '' '' @ getUnit (quantity p)
           = merged_quantity (ms @ [p])"
    by (simp add: e parseQuantity_magnitude [OF b(2)] to_double_safe [OF b(3)]
        merged_quantity_def summed_safe [OF assms(2)] tot)
  have u: "(merged ms)\<lparr>quantity := q, originalQuantity := q\<rparr>
         = (hd ms)\<lparr>quantity := q, originalQuantity := q\<rparr>" for q
    by (simp add: merged_def)
  have r: "merged (ms @ [p])
         = (hd ms)\<lparr>quantity := merged_quantity (ms @ [p]),
                    originalQuantity := merged_quantity (ms @ [p])\<rparr>"
    using assms(1) by (simp add: merged_def)
  show ?thesis
    unfolding combine_def Let_def t u r ..
qed

subsection \<open>The fold builds the groups\<close>

lemma update_map_key:
  "distinct ks \<Longrightarrow> k \<in> set ks \<Longrightarrow>
   AList.update k v (map (\<lambda>x. (x, f x)) ks) = map (\<lambda>x. (x, if x = k then v else f x)) ks"
  by (induction ks) auto

lemma map_of_groups:
  "map_of (map (\<lambda>x. (x, f x)) ks) k = (if k \<in> set ks then Some (f k) else None)"
  by (induction ks) auto

lemma total_magnitude_members: "total_magnitude (members k ps) \<le> total_magnitude ps"
  by (simp add: total_magnitude_def members_def sum_list_filter_le_nat)

lemma members_snoc:
  "members k (ps @ [p]) = (if group_key p = k then members k ps @ [p] else members k ps)"
  by (simp add: members_def)

lemma exact_groups_total: "total_magnitude ps \<le> MAX_SAFE_INTEGER \<Longrightarrow> exact_groups ps"
  unfolding exact_groups_def using total_magnitude_members le_trans by blast

lemma exact_groups_butlast:
  assumes "exact_groups (ps @ [p])"
  shows "exact_groups ps"
  unfolding exact_groups_def
proof
  fix q assume "q \<in> set ps"
  with assms have "total_magnitude (members (group_key q) (ps @ [p])) \<le> MAX_SAFE_INTEGER"
    by (simp add: exact_groups_def)
  moreover have "total_magnitude (members (group_key q) ps)
      \<le> total_magnitude (members (group_key q) (ps @ [p]))"
    by (simp add: members_snoc total_magnitude_def)
  ultimately show "total_magnitude (members (group_key q) ps) \<le> MAX_SAFE_INTEGER"
    by simp
qed

lemma groups_snoc:
  assumes "exact_groups (ps @ [p])"
  shows "group_step (groups ps) p = groups (ps @ [p])"
proof (cases "group_key p \<in> set (map group_key ps)")
  case True
  let ?k = "group_key p"
  let ?ks = "first_seen (map group_key ps)"
  have in_ks: "?k \<in> set ?ks" using True by (simp add: set_first_seen)
  have ne: "members ?k ps \<noteq> []"
    using True by (auto simp: members_def filter_empty_conv)
  have "total_magnitude (members ?k (ps @ [p])) \<le> MAX_SAFE_INTEGER"
    using assms by (simp add: exact_groups_def)
  then have m: "merged (members ?k ps @ [p]) = combine (merged (members ?k ps)) p"
    using ne by (intro merged_snoc) (simp_all add: members_snoc)
  have "group_step (groups ps) p
      = AList.update ?k (combine (merged (members ?k ps)) p) (groups ps)"
    using in_ks by (simp add: group_step_def groups_def map_of_groups Let_def)
  also have "\<dots> = map (\<lambda>x. (x, if x = ?k then combine (merged (members ?k ps)) p
                               else merged (members x ps))) ?ks"
    unfolding groups_def using distinct_first_seen in_ks by (rule update_map_key)
  also have "\<dots> = map (\<lambda>x. (x, merged (members x (ps @ [p])))) ?ks"
    by (rule map_cong) (simp_all add: members_snoc m)
  also have "\<dots> = groups (ps @ [p])"
    using True by (simp add: groups_def first_seen_snoc)
  finally show ?thesis .
next
  case False
  let ?k = "group_key p"
  let ?ks = "first_seen (map group_key ps)"
  have not_ks: "?k \<notin> set ?ks" using False by (simp add: set_first_seen)
  have e: "members ?k ps = []"
    unfolding members_def filter_empty_conv using False by (metis image_eqI list.set_map)
  have a: "group_step (groups ps) p = groups ps @ [(?k, p)]"
    using not_ks by (simp add: group_step_def groups_def map_of_groups Let_def)
  have g: "map (\<lambda>x. (x, merged (members x (ps @ [p])))) ?ks = groups ps"
    unfolding groups_def using not_ks by (intro map_cong) (auto simp: members_snoc)
  have l: "merged (members ?k (ps @ [p])) = p"
    by (simp add: members_snoc e merged_def)
  have "groups (ps @ [p]) = map (\<lambda>x. (x, merged (members x (ps @ [p])))) (?ks @ [?k])"
    using False by (simp add: groups_def first_seen_snoc)
  also have "\<dots> = groups ps @ [(?k, p)]"
    by (simp add: g l)
  finally show ?thesis using a by simp
qed

lemma foldl_group_step_groups:
  "exact_groups ps \<Longrightarrow> foldl group_step [] ps = groups ps"
proof (induction ps rule: rev_induct)
  case Nil
  show ?case by (simp add: groups_def first_seen_def)
next
  case (snoc p ps)
  have "exact_groups ps"
    using snoc.prems by (rule exact_groups_butlast)
  with snoc.IH groups_snoc [OF snoc.prems] show ?case by simp
qed

lemma aggregate_groups:
  "exact_groups ps \<Longrightarrow>
   aggregate ps = map (\<lambda>k. merged (members k ps)) (first_seen (map group_key ps))"
  by (simp add: aggregate_def foldl_group_step_groups groups_def comp_def)

subsection \<open>The aggregator as a left fold over the members of each key\<close>

lemma merged_fields:
  "ms \<noteq> [] \<Longrightarrow>
   id_num (merged ms) = id_num (hd ms) \<and> name (merged ms) = name (hd ms) \<and>
   date (merged ms) = date (hd ms) \<and> uniqueKey (merged ms) = uniqueKey (hd ms)"
  by (simp add: merged_def)

text \<open>
  What the aggregator computes for the key it uses, the name followed by \<open>-\<close> and the
  whole quantity text.  For every record list in which the magnitudes of the members of
  each key sum to at most \<open>2^53 - 1\<close>, the aggregated list holds one record per key, in
  the order in which the keys are first seen.  The record of a key keeps the id, name and
  date of the key's first member.  A key with one member keeps that member's quantity
  text; for a key with more members the text is the sum of \<open>parseQuantity\<close> over all its
  members, a space, and \<open>getUnit\<close> of the last member's text; and that sum is the exact
  sum of the members' magnitudes.
\<close>

lemma aggregate_left_fold:
  assumes "exact_groups ps"
  shows "aggregate ps = map (\<lambda>k. merged (members k ps)) (first_seen (map group_key ps)) \<and>
    (\<forall>k \<in> set (map group_key ps).
       members k ps \<noteq> [] \<and>
       id_num (merged (members k ps)) = id_num (hd (members k ps)) \<and>
       name (merged (members k ps)) = name (hd (members k ps)) \<and>
       date (merged (members k ps)) = date (hd (members k ps)) \<and>
       (length (members k ps) = 1 \<longrightarrow>
          quantity (merged (members k ps)) = quantity (hd (members k ps))) \<and>
       (length (members k ps) \<noteq> 1 \<longrightarrow>
          quantity (merged (members k ps)) =
            Number_toString (summed (members k ps)) @ js '' '' @
            getUnit (quantity (last (members k ps)))) \<and>
       summed (members k ps) = Fin (total_magnitude (members k ps)))"
proof (intro conjI ballI)
  show "aggregate ps = map (\<lambda>k. merged (members k ps)) (first_seen (map group_key ps))"
    using assms by (rule aggregate_groups)
next
  fix k assume k: "k \<in> set (map group_key ps)"
  show ne: "members k ps \<noteq> []"
    unfolding members_def filter_empty_conv using k by auto
  from merged_fields [OF ne]
  show "id_num (merged (members k ps)) = id_num (hd (members k ps))"
    and "name (merged (members k ps)) = name (hd (members k ps))"
    and "date (merged (members k ps)) = date (hd (members k ps))"
    by simp_all
  show "length (members k ps) = 1 \<longrightarrow>
          quantity (merged (members k ps)) = quantity (hd (members k ps))"
    by (simp add: merged_def)
  show "length (members k ps) \<noteq> 1 \<longrightarrow>
          quantity (merged (members k ps)) =
            Number_toString (summed (members k ps)) @ js '' '' @
            getUnit (quantity (last (members k ps)))"
    by (simp add: merged_def merged_quantity_def)
  have "total_magnitude (members k ps) \<le> MAX_SAFE_INTEGER"
    using assms k by (auto simp: exact_groups_def)
  then show "summed (members k ps) = Fin (total_magnitude (members k ps))"
    by (rule summed_safe)
qed

text \<open>
  The three \<open>Elma\<close> lines \<open>2 kg\<close>, \<open>2 kg\<close>, \<open>4 kg\<close>: the first two share a key.
\<close>

lemma total_magnitude_elma_lines: "total_magnitude elma_lines = 8"
  by (simp add: total_magnitude_def magnitude_def elma_lines_def order_line_def js_def
      is_digit_def decimal_value_def)

lemma aggregate_elma_lines:
  "exact_groups elma_lines \<and>
   aggregate elma_lines =
     map (\<lambda>k. merged (members k elma_lines)) (first_seen (map group_key elma_lines)) \<and>
   map id_num (aggregate elma_lines) = [1, 3] \<and>
   map quantity (aggregate elma_lines) = [js ''4 kg'', js ''4 kg'']"
proof -
  have b: "exact_groups elma_lines"
    by (rule exact_groups_total) (simp add: total_magnitude_elma_lines MAX_SAFE_INTEGER_def)
  have v: "map id_num (aggregate elma_lines) = [1, 3]"
    "map quantity (aggregate elma_lines) = [js ''4 kg'', js ''4 kg'']"
    by (simp_all add: elma_lines_def view_defs parser_defs)
  from aggregate_groups [OF b] b v show ?thesis by blast
qed

subsection \<open>Claim C2\<close>

lemma processedProducts_elma_rows:
  "processedProducts elma_rows =
     [order_line 1 (js ''Elma'') (js ''2 kg''), order_line 2 (js ''Elma'') (js ''3 kg''),
      order_line 3 (js ''Armut'') (js ''1 adet'')]"
  by (simp add: elma_rows_def normalizer_defs order_line_def js_def)

text \<open>
  C2 (the code at the failing input).  The rows of the claim's example: \<open>Elma\<close> with
  \<open>2 kg\<close>, \<open>Elma\<close> with \<open>3 kg\<close>, \<open>Armut\<close> with \<open>1 adet\<close>.  The two \<open>Elma\<close> rows have the
  same name and the same unit, \<open>kg\<close>, but the aggregator keys a record by its name and
  its whole quantity text: their keys \<open>Elma-2 kg\<close> and \<open>Elma-3 kg\<close> differ, and they are
  not merged.  The aggregated list holds the three rows unchanged, not \<open>Elma\<close> with
  \<open>5 kg\<close> followed by \<open>Armut\<close> with \<open>1 adet\<close>.
\<close>

theorem aggregate_elma_rows_apart:
  "map (\<lambda>p. (name p, getUnit (quantity p))) (processedProducts elma_rows) =
     [(js ''Elma'', js ''kg''), (js ''Elma'', js ''kg''), (js ''Armut'', js ''adet'')] \<and>
   map group_key (processedProducts elma_rows) =
     [js ''Elma-2 kg'', js ''Elma-3 kg'', js ''Armut-1 adet''] \<and>
   map (\<lambda>p. (name p, quantity p)) (aggregate (processedProducts elma_rows)) =
     [(js ''Elma'', js ''2 kg''), (js ''Elma'', js ''3 kg''), (js ''Armut'', js ''1 adet'')] \<and>
   map (\<lambda>p. (name p, quantity p)) (aggregate (processedProducts elma_rows)) \<noteq>
     [(js ''Elma'', js ''5 kg''), (js ''Armut'', js ''1 adet'')]"
  by (simp add: processedProducts_elma_rows view_defs parser_defs)

subsection \<open>Claim C8\<close>

lemma sum_list_delta:
  "distinct ks \<Longrightarrow>
   sum_list (map (\<lambda>k. if k0 = k then c else 0) ks) = (if k0 \<in> set ks then c else (0::nat))"
  by (induction ks) auto

lemma total_magnitude_regroup:
  "distinct ks \<Longrightarrow> group_key ` set ps \<subseteq> set ks \<Longrightarrow>
   sum_list (map (\<lambda>k. total_magnitude (members k ps)) ks) = total_magnitude ps"
proof (induction ps)
  case Nil
  show ?case by (simp add: members_def total_magnitude_def)
next
  case (Cons x ps)
  have split: "total_magnitude (members k (x # ps))
      = (if group_key x = k then magnitude (quantity x) else 0) + total_magnitude (members k ps)"
    for k
    by (simp add: members_def total_magnitude_def)
  have "sum_list (map (\<lambda>k. total_magnitude (members k (x # ps))) ks)
      = sum_list (map (\<lambda>k. if group_key x = k then magnitude (quantity x) else 0) ks)
        + sum_list (map (\<lambda>k. total_magnitude (members k ps)) ks)"
    by (simp add: split sum_list_addf)
  also have "\<dots> = magnitude (quantity x) + total_magnitude ps"
    using Cons by (simp add: sum_list_delta)
  finally show ?case by (simp add: total_magnitude_def)
qed

lemma total_magnitude_aggregate:
  assumes "total_magnitude ps \<le> MAX_SAFE_INTEGER"
  shows "total_magnitude (aggregate ps) = total_magnitude ps"
proof -
  let ?ks = "first_seen (map group_key ps)"
  have each: "magnitude (quantity (merged (members k ps))) = total_magnitude (members k ps)"
    if "k \<in> set ?ks" for k
  proof -
    from that have "members k ps \<noteq> []"
      unfolding members_def filter_empty_conv by (auto simp: set_first_seen)
    moreover have "total_magnitude (members k ps) \<le> MAX_SAFE_INTEGER"
      using total_magnitude_members [of k ps] assms by simp
    ultimately show ?thesis by (rule magnitude_merged)
  qed
  have "total_magnitude (aggregate ps)
      = sum_list (map (\<lambda>k. magnitude (quantity (merged (members k ps)))) ?ks)"
    by (simp add: aggregate_groups [OF exact_groups_total [OF assms]] total_magnitude_def
        comp_def)
  also have "\<dots> = sum_list (map (\<lambda>k. total_magnitude (members k ps)) ?ks)"
    using each by (intro arg_cong [where f = sum_list] map_cong) simp_all
  also have "\<dots> = total_magnitude ps"
    by (rule total_magnitude_regroup) (simp_all add: distinct_first_seen set_first_seen)
  finally show ?thesis .
qed

text \<open>
  Aggregation keeps the total magnitude, which is what the specification says to test:
  for every record list whose magnitudes sum to at most \<open>2^53 - 1\<close>, the sum of
  \<open>parseQuantity\<close> over the aggregated output equals the sum over the input, and feeding
  the output back through aggregation leaves that total unchanged.
\<close>

lemma aggregate_total_magnitude:
  assumes "total_magnitude ps \<le> MAX_SAFE_INTEGER"
  shows "summed (aggregate ps) = summed ps \<and>
         summed (aggregate (aggregate ps)) = summed (aggregate ps) \<and>
         summed ps = Fin (total_magnitude ps) \<and>
         total_magnitude (aggregate (aggregate ps)) = total_magnitude ps"
proof -
  have a: "total_magnitude (aggregate ps) = total_magnitude ps"
    using assms by (rule total_magnitude_aggregate)
  with assms have a': "total_magnitude (aggregate ps) \<le> MAX_SAFE_INTEGER" by simp
  have b: "total_magnitude (aggregate (aggregate ps)) = total_magnitude (aggregate ps)"
    using a' by (rule total_magnitude_aggregate)
  with a' have b': "total_magnitude (aggregate (aggregate ps)) \<le> MAX_SAFE_INTEGER" by simp
  show ?thesis
    by (simp add: summed_safe [OF assms] summed_safe [OF a'] summed_safe [OF b'] a b)
qed

text \<open>
  A record list whose keys are pairwise different is left as it is; so whenever the
  aggregated records have pairwise different keys, aggregating them again changes
  nothing, whatever their magnitudes.
\<close>

lemma foldl_group_step_distinct:
  "distinct (map fst g @ map group_key ps) \<Longrightarrow>
   foldl group_step g ps = g @ map (\<lambda>p. (group_key p, p)) ps"
proof (induction ps arbitrary: g)
  case Nil
  show ?case by simp
next
  case (Cons p ps)
  have "group_key p \<notin> fst ` set g" using Cons.prems by auto
  then have "map_of g (group_key p) = None" by (simp add: map_of_eq_None_iff)
  then have step: "group_step g p = g @ [(group_key p, p)]"
    by (simp add: group_step_def Let_def)
  have "distinct (map fst (g @ [(group_key p, p)]) @ map group_key ps)"
    using Cons.prems by auto
  from Cons.IH [OF this] step show ?case by simp
qed

lemma aggregate_distinct_keys: "distinct (map group_key ps) \<Longrightarrow> aggregate ps = ps"
  using foldl_group_step_distinct [of "[]" ps] by (simp add: aggregate_def comp_def)

lemma reaggregation_idempotent:
  assumes "distinct (map group_key (aggregate ps))"
  shows "aggregate (aggregate ps) = aggregate ps \<and>
         mset (map (\<lambda>p. parseQuantity (quantity p)) (aggregate (aggregate ps))) =
         mset (map (\<lambda>p. parseQuantity (quantity p)) (aggregate ps))"
  using aggregate_distinct_keys [OF assms] by simp

text \<open>
  C8 (the code at the failing input).  The three \<open>Elma\<close> lines \<open>2 kg\<close>, \<open>2 kg\<close>, \<open>4 kg\<close>
  have the same name and the same unit, but the aggregator keys a record by its name and
  its whole quantity text: the first aggregation merges only the first two lines and
  yields two records that both read \<open>4 kg\<close>.  These now share a key, so the second
  aggregation merges them into one record of \<open>8 kg\<close>: the magnitudes per group change from
  4 and 4 to 8.
\<close>

theorem reaggregation_merges_equal_texts:
  "map (\<lambda>p. (name p, getUnit (quantity p))) elma_lines =
     [(js ''Elma'', js ''kg''), (js ''Elma'', js ''kg''), (js ''Elma'', js ''kg'')] \<and>
   map (\<lambda>p. (name p, quantity p)) (aggregate elma_lines) =
     [(js ''Elma'', js ''4 kg''), (js ''Elma'', js ''4 kg'')] \<and>
   map (\<lambda>p. parseQuantity (quantity p)) (aggregate elma_lines) = [Fin 4, Fin 4] \<and>
   map (\<lambda>p. parseQuantity (quantity p)) (aggregate (aggregate elma_lines)) = [Fin 8] \<and>
   mset (map (\<lambda>p. parseQuantity (quantity p)) (aggregate (aggregate elma_lines))) \<noteq>
   mset (map (\<lambda>p. parseQuantity (quantity p)) (aggregate elma_lines))"
  by (simp add: elma_lines_def view_defs parser_defs)

subsection \<open>Beyond the exact range\<close>

text \<open>
  Above \<open>2^53 - 1\<close> the sums of the host language are rounded.  Three lines of
  9007199254740991 kg have the total 27021597764222973, which is not a double: the sum
  the aggregator computes is 27021597764222972.
\<close>

lemma to_double_examples:
  "to_double 18014398509481982 = Fin 18014398509481982"
  "to_double 27021597764222973 = Fin 27021597764222972"
  "to_double 9007199254740993 = Fin 9007199254740992"
  "to_double 9007199254740992 = Fin 9007199254740992"
  "to_double 9007199254740994 = Fin 9007199254740994"
  by (simp_all add: to_double_def bit_length.simps Let_def)

lemma parseQuantity_large: "parseQuantity (js ''9007199254740991 kg'') = Fin 9007199254740991"
  by (simp add: parseQuantity_def js_def is_digit_def parseInt_def decimal_value_def
      to_double_def)

lemma summed_inexact:
  "total_magnitude large_lines = 27021597764222973 \<and>
   summed large_lines = Fin 27021597764222972"
proof -
  have "magnitude (js ''9007199254740991 kg'') = 9007199254740991"
    by (simp add: magnitude_def js_def is_digit_def decimal_value_def)
  then have a: "total_magnitude large_lines = 27021597764222973"
    by (simp add: total_magnitude_def large_lines_def order_line_def)
  have "to_double 9007199254740991 = Fin 9007199254740991"
    by (simp add: to_double_def)
  then have b: "summed large_lines = Fin 27021597764222972"
    by (simp add: summed_def large_lines_def order_line_def parseQuantity_large
        to_double_examples)
  from a b show ?thesis by simp
qed

text \<open>
  Rounded sums depend on the order of the additions, and aggregation changes that order:
  for the lines 1 kg, 9007199254740992 kg, 1 kg (the first and the last of the same key)
  the magnitudes of the input add up to 9007199254740992 in input order, those of the
  aggregated output (2 kg and 9007199254740992 kg) to 9007199254740994.
\<close>

lemma total_inexact:
  "summed uneven_lines = Fin 9007199254740992 \<and>
   map quantity (aggregate uneven_lines) = [js ''2 kg'', js ''9007199254740992 kg''] \<and>
   summed (aggregate uneven_lines) = Fin 9007199254740994"
proof -
  have p: "parseQuantity (js ''9007199254740992 kg'') = Fin 9007199254740992"
    by (simp add: parseQuantity_def js_def is_digit_def parseInt_def decimal_value_def
        to_double_examples)
  have p1: "parseQuantity (js ''1 kg'') = Fin 1" "parseQuantity (js ''2 kg'') = Fin 2"
    by (simp_all add: parser_defs)
  have a: "summed uneven_lines = Fin 9007199254740992"
    by (simp add: summed_def uneven_lines_def order_line_def p p1 to_double_examples
        to_double_safe MAX_SAFE_INTEGER_def)
  have g: "aggregate uneven_lines =
      [(order_line 1 (js ''Un'') (js ''1 kg''))\<lparr>quantity := js ''2 kg'', originalQuantity := js ''2 kg''\<rparr>,
       order_line 2 (js ''Tuz'') (js ''9007199254740992 kg'')]"
    by (simp add: uneven_lines_def view_defs parser_defs)
  have b: "summed (aggregate uneven_lines) = Fin 9007199254740994"
    by (simp add: g summed_def order_line_def p p1 to_double_examples to_double_safe
        MAX_SAFE_INTEGER_def)
  have q: "map quantity (aggregate uneven_lines) = [js ''2 kg'', js ''9007199254740992 kg'']"
    by (simp add: g order_line_def)
  from a b q show ?thesis by simp
qed

section \<open>Claim C6: the duplicate annotator\<close>

text \<open>
  C6 (the code at the failing input).  Two groups share the name \<open>constructor\<close>, a
  property of \<^verbatim>\<open>Object.prototype\<close>: their \<open>duplicateCount\<close> is not the number 2 and
  \<open>isDuplicate\<close> is false.
\<close>

theorem annotate_prototype_name:
  "map name (aggregate constructor_lines) = [js ''constructor'', js ''constructor''] \<and>
   map duplicateCount (annotate (aggregate constructor_lines)) = [NonNumeric, NonNumeric] \<and>
   map isDuplicate (annotate (aggregate constructor_lines)) = [False, False]"
  by (simp add: constructor_lines_def view_defs parser_defs)

text \<open>
  The example of the claim: two groups named \<open>Domates\<close>, both counted 2 and flagged.
\<close>

lemma annotate_domates:
  "map name (aggregate domates_lines) = [js ''Domates'', js ''Domates''] \<and>
   map duplicateCount (annotate (aggregate domates_lines)) = [Num 2, Num 2] \<and>
   map isDuplicate (annotate (aggregate domates_lines)) = [True, True]"
  by (simp add: domates_lines_def view_defs parser_defs)

subsection \<open>The annotator on ordinary names\<close>

text \<open>
  For a name that is not a property of \<^verbatim>\<open>Object.prototype\<close> the annotator does what claim
  C6 says: \<open>duplicateCount\<close> is the number of records of the annotated list with that
  name, and \<open>isDuplicate\<close> says whether it exceeds 1.  For the other names the count is
  not a number and the flag is false.
\<close>

lemma proto_is_prototype_key: "js ''__proto__'' \<in> set object_prototype_keys"
  by (simp add: object_prototype_keys_def)

lemma get_set_property:
  "get_property (set_property own k v) n =
     (if n = k \<and> k \<noteq> js ''__proto__'' then v else get_property own n)"
  by (simp add: get_property_def set_property_def)

lemma get_property_count_step:
  "get_property (count_step own x) n =
     (if n = name x \<and> name x \<noteq> js ''__proto__''
      then or_zero_plus_one (get_property own (name x)) else get_property own n)"
  by (simp add: count_step_def get_set_property)

lemma get_property_counts:
  "get_property (foldl count_step Map.empty xs) n =
     (if n \<in> set object_prototype_keys then NonNumeric
      else if count_name n xs = 0 then Undefined else Num (count_name n xs))"
proof (induction xs arbitrary: n rule: rev_induct)
  case Nil
  show ?case by (simp add: get_property_def count_name_def)
next
  case (snoc x xs)
  let ?own = "foldl count_step Map.empty xs"
  show ?case
  proof (cases "n = name x")
    case True
    show ?thesis
    proof (cases "n \<in> set object_prototype_keys")
      case True
      with snoc.IH [of n] \<open>n = name x\<close> show ?thesis
        by (auto simp: get_property_count_step)
    next
      case False
      with proto_is_prototype_key have "name x \<noteq> js ''__proto__''"
        using \<open>n = name x\<close> by auto
      with False \<open>n = name x\<close> snoc.IH [of n] show ?thesis
        by (simp add: get_property_count_step count_name_def)
    qed
  next
    case False
    with snoc.IH [of n] show ?thesis
      by (simp add: get_property_count_step count_name_def)
  qed
qed

lemma annotate_counts:
  "map duplicateCount (annotate xs) =
     map (\<lambda>p. if name p \<in> set object_prototype_keys then NonNumeric
               else Num (count_name (name p) xs)) xs \<and>
   map isDuplicate (annotate xs) =
     map (\<lambda>p. name p \<notin> set object_prototype_keys \<and> 1 < count_name (name p) xs) xs \<and>
   map name (annotate xs) = map name xs \<and>
   map quantity (annotate xs) = map quantity xs"
proof -
  have pos: "count_name (name p) xs \<noteq> 0" if "p \<in> set xs" for p
    using that by (auto simp: count_name_def filter_empty_conv)
  show ?thesis
    by (simp add: annotate_def Let_def comp_def get_property_counts pos)
qed

section \<open>Claim C7: text filter before and after aggregation\<close>

text \<open>
  C7 (the code at the failing input).  With the search text \<open>-1\<close>, filtering before the
  aggregation keeps the line \<open>Biber-1\<close> alone, which is then shown; filtering after the
  aggregation and annotation finds only the merged record named \<open>Biber\<close> and shows
  nothing.
\<close>

theorem text_filter_after_aggregation_differs:
  "map name (annotate (aggregate (textFilter ascii_engine (js ''-1'')
      (dateFilter (js ''2025-08-26'') biber_lines)))) = [js ''Biber-1''] \<and>
   textFilter ascii_engine (js ''-1'')
      (annotate (aggregate (dateFilter (js ''2025-08-26'') biber_lines))) = []"
  by (simp add: biber_lines_def view_defs parser_defs)

subsection \<open>Text filtering commutes when the key determines the name\<close>

text \<open>
  Where no name contains a hyphen the key determines the name, groups hold records of one
  name only, and the text filter commutes with aggregation and annotation, as the claim
  says.
\<close>

lemma name_combine: "name (combine e p) = name e"
  by (simp add: combine_def Let_def)

lemma map_of_filter_key:
  "(\<And>e. (k, e) \<in> set g \<Longrightarrow> R (k, e)) \<Longrightarrow> map_of (filter R g) k = map_of g k"
  by (induction g) auto

lemma filter_update_kept:
  "R (k, v) \<Longrightarrow> (\<And>e. (k, e) \<in> set g \<Longrightarrow> R (k, e)) \<Longrightarrow> k \<in> fst ` set g \<Longrightarrow>
   filter R (AList.update k v g) = AList.update k v (filter R g)"
  by (induction g) auto

lemma filter_update_dropped:
  "\<not> R (k, v) \<Longrightarrow> (\<And>e. (k, e) \<in> set g \<Longrightarrow> \<not> R (k, e)) \<Longrightarrow> k \<in> fst ` set g \<Longrightarrow>
   filter R (AList.update k v g) = filter R g"
  by (induction g) auto

lemma entries_from_step:
  assumes "entries_from S g" "p \<in> S"
  shows "entries_from S (group_step g p)"
proof (cases "map_of g (group_key p)")
  case None
  with assms show ?thesis
    by (auto simp: entries_from_def group_step_def Let_def)
next
  case (Some e)
  then have "(group_key p, e) \<in> set g" by (rule map_of_SomeD)
  with assms(1) obtain m where m: "m \<in> S" "group_key m = group_key p" "name m = name e"
    by (auto simp: entries_from_def)
  have sub: "set (AList.update (group_key p) (combine e p) g)
      \<subseteq> insert (group_key p, combine e p) (set g)"
    by (induction g) auto
  have "\<exists>m \<in> S. group_key m = k \<and> name m = name e'"
    if "(k, e') \<in> set (AList.update (group_key p) (combine e p) g)" for k e'
  proof -
    from that sub have "(k, e') = (group_key p, combine e p) \<or> (k, e') \<in> set g" by auto
    then show ?thesis
    proof
      assume "(k, e') = (group_key p, combine e p)"
      with m show ?thesis by (auto simp: name_combine)
    next
      assume "(k, e') \<in> set g"
      with assms(1) show ?thesis by (auto simp: entries_from_def)
    qed
  qed
  then show ?thesis
    unfolding entries_from_def group_step_def Let_def Some by auto
qed

lemma entry_name:
  assumes "key_fixes_name S" "entries_from S g" "p \<in> S" "(group_key p, e) \<in> set g"
  shows "name e = name p"
proof -
  from assms(2,4) obtain m where "m \<in> S" "group_key m = group_key p" "name m = name e"
    by (auto simp: entries_from_def)
  with assms(1,3) show ?thesis unfolding key_fixes_name_def by metis
qed

lemma group_step_filter:
  fixes Q :: "jsstring \<Rightarrow> bool"
  assumes K: "key_fixes_name S" and E: "entries_from S g" and p: "p \<in> S"
    and R_def: "R = (\<lambda>(k, e). Q (name e))"
  shows "filter R (group_step g p) = (if Q (name p) then group_step (filter R g) p else filter R g)"
proof (cases "map_of g (group_key p)")
  case None
  then have "map_of (filter R g) (group_key p) = None"
    by (metis (no_types, lifting) filter_is_subset image_mono map_of_eq_None_iff subsetD)
  with None show ?thesis
    by (simp add: group_step_def Let_def R_def)
next
  case (Some e)
  let ?k = "group_key p"
  have mem: "(?k, e) \<in> set g" using Some by (rule map_of_SomeD)
  then have dom: "?k \<in> fst ` set g" by force
  have same: "Q (name e') = Q (name p)" if "(?k, e') \<in> set g" for e'
    using entry_name [OF K E p that] by simp
  show ?thesis
  proof (cases "Q (name p)")
    case True
    have kept: "R (?k, e')" if "(?k, e') \<in> set g" for e'
      using same [OF that] True by (simp add: R_def)
    have m: "map_of (filter R g) ?k = Some e"
      using map_of_filter_key [of ?k g R] kept Some by simp
    have v: "R (?k, combine e p)"
      using same [OF mem] True by (simp add: R_def name_combine)
    have "filter R (AList.update ?k (combine e p) g) = AList.update ?k (combine e p) (filter R g)"
      using v kept dom by (rule filter_update_kept)
    with True Some m show ?thesis by (simp add: group_step_def Let_def)
  next
    case False
    have dropped: "\<not> R (?k, e')" if "(?k, e') \<in> set g" for e'
      using same [OF that] False by (simp add: R_def)
    have v: "\<not> R (?k, combine e p)"
      using same [OF mem] False by (simp add: R_def name_combine)
    have "filter R (AList.update ?k (combine e p) g) = filter R g"
      using v dropped dom by (rule filter_update_dropped)
    with False Some show ?thesis by (simp add: group_step_def Let_def)
  qed
qed

lemma foldl_group_step_filter:
  assumes "key_fixes_name S"
  shows "entries_from S g \<Longrightarrow> set ps \<subseteq> S \<Longrightarrow>
    foldl group_step (filter (\<lambda>(k, e). Q (name e)) g) (filter (\<lambda>p. Q (name p)) ps)
      = filter (\<lambda>(k, e). Q (name e)) (foldl group_step g ps)"
proof (induction ps arbitrary: g)
  case Nil
  show ?case by simp
next
  case (Cons p ps)
  have p: "p \<in> S" and ps: "set ps \<subseteq> S" using Cons.prems(2) by simp_all
  have E: "entries_from S (group_step g p)"
    using Cons.prems(1) p by (rule entries_from_step)
  have "filter (\<lambda>(k, e). Q (name e)) (foldl group_step (group_step g p) ps)
      = foldl group_step (filter (\<lambda>(k, e). Q (name e)) (group_step g p))
          (filter (\<lambda>p. Q (name p)) ps)"
    using Cons.IH [OF E ps] by simp
  then show ?case
    using group_step_filter [OF assms Cons.prems(1) p refl, of Q] by simp
qed

lemma aggregate_filter:
  assumes "key_fixes_name (set ps)"
  shows "aggregate (filter (\<lambda>p. Q (name p)) ps) = filter (\<lambda>p. Q (name p)) (aggregate ps)"
proof -
  have "entries_from (set ps) []" by (simp add: entries_from_def)
  from foldl_group_step_filter [OF assms this subset_refl, of Q]
  have "foldl group_step [] (filter (\<lambda>p. Q (name p)) ps)
      = filter (\<lambda>(k, e). Q (name e)) (foldl group_step [] ps)"
    by simp
  then show ?thesis
    by (simp add: aggregate_def filter_map comp_def case_prod_unfold)
qed

lemma count_name_filter:
  "Q n \<Longrightarrow> count_name n (filter (\<lambda>p. Q (name p)) xs) = count_name n xs"
  unfolding count_name_def filter_filter
  by (rule arg_cong [where f = length], rule filter_cong) auto

lemma annotate_filter:
  "annotate (filter (\<lambda>p. Q (name p)) xs) = filter (\<lambda>p. Q (name p)) (annotate xs)"
proof -
  have "get_property (foldl count_step Map.empty (filter (\<lambda>p. Q (name p)) xs)) (name p)
      = get_property (foldl count_step Map.empty xs) (name p)" if "Q (name p)" for p :: product
    using that by (simp add: get_property_counts count_name_filter)
  then show ?thesis
    by (simp add: annotate_def Let_def filter_map comp_def cong: map_cong)
qed

lemma hyphen_free_key_fixes_name:
  "\<forall>p \<in> S. 45 \<notin> set (name p) \<Longrightarrow> key_fixes_name S"
  unfolding key_fixes_name_def using group_key_injective by blast

lemma text_filter_commutes:
  assumes "\<forall>p \<in> set ps. 45 \<notin> set (name p)"
  shows "annotate (aggregate (textFilter e t ps)) = textFilter e t (annotate (aggregate ps))"
proof (cases "t = []")
  case True
  then show ?thesis by (simp add: textFilter_def)
next
  case False
  let ?Q = "\<lambda>n. string_includes (toLowerCase e n) (toLowerCase e t)"
  have K: "key_fixes_name (set ps)"
    using assms by (rule hyphen_free_key_fixes_name)
  have "annotate (aggregate (filter (\<lambda>p. ?Q (name p)) ps))
      = filter (\<lambda>p. ?Q (name p)) (annotate (aggregate ps))"
    by (simp add: aggregate_filter [OF K, of ?Q] annotate_filter [of ?Q])
  with False show ?thesis by (simp add: textFilter_def)
qed

section \<open>Claim C9: sorting by name\<close>

subsection \<open>Sorting with a strict comparator\<close>

lemma strict_on_subset: "strict_on S cmp \<Longrightarrow> T \<subseteq> S \<Longrightarrow> strict_on T cmp"
  unfolding strict_on_def by (meson subsetD)

lemma strict_on_negate:
  assumes "strict_on S cmp"
  shows "strict_on S (\<lambda>a b. - cmp a b)"
  unfolding strict_on_def
proof (intro conjI ballI impI)
  fix a b assume "a \<in> S" "b \<in> S" "a \<noteq> b"
  with assms show "- cmp a b \<noteq> 0" by (simp add: strict_on_def)
next
  fix a b assume "a \<in> S" "b \<in> S"
  with assms have "(cmp b a < 0) = (0 < cmp a b)" by (simp add: strict_on_def)
  then show "(- cmp a b < 0) = (0 < - cmp b a)" by auto
next
  fix a b c assume s: "a \<in> S" "b \<in> S" "c \<in> S" and lt: "- cmp a b < 0" "- cmp b c < 0"
  from assms s have ab: "(cmp b a < 0) = (0 < cmp a b)" and bc: "(cmp c b < 0) = (0 < cmp b c)"
    and ac: "(cmp c a < 0) = (0 < cmp a c)"
    by (simp_all add: strict_on_def)
  from lt ab bc have "cmp c b < 0" "cmp b a < 0" by auto
  with assms s have "cmp c a < 0" unfolding strict_on_def by blast
  with ac show "- cmp a c < 0" by simp
qed

lemma set_insert_sorted: "set (insert_sorted cmp x xs) = insert x (set xs)"
  by (induction xs) auto

lemma set_array_sort: "set (array_sort cmp xs) = set xs"
  by (induction xs) (simp_all add: array_sort_def set_insert_sorted)

lemma sorted_insert_sorted:
  assumes "strict_on (insert x (set ys)) cmp" "x \<notin> set ys"
    "sorted_wrt (\<lambda>a b. cmp a b < 0) ys"
  shows "sorted_wrt (\<lambda>a b. cmp a b < 0) (insert_sorted cmp x ys)"
  using assms
proof (induction ys)
  case Nil
  show ?case by simp
next
  case (Cons y ys)
  let ?S = "insert x (set (y # ys))"
  have so: "strict_on ?S cmp" by (rule Cons.prems(1))
  have xy: "x \<noteq> y" using Cons.prems(2) by auto
  show ?case
  proof (cases "cmp x y \<le> 0")
    case True
    from so xy have "cmp x y \<noteq> 0" unfolding strict_on_def by simp
    with True have lt: "cmp x y < 0" by simp
    have "cmp x z < 0" if "z \<in> set ys" for z
    proof -
      from Cons.prems(3) that have "cmp y z < 0" by auto
      with so lt that show ?thesis unfolding strict_on_def
        by (meson insertI1 insertI2 list.set_intros)
    qed
    with lt True Cons.prems(3) show ?thesis by auto
  next
    case False
    then have "0 < cmp x y" by simp
    moreover from so have "(cmp y x < 0) = (0 < cmp x y)"
      unfolding strict_on_def by (meson insertI1 insertI2 list.set_intros)
    ultimately have yx: "cmp y x < 0" by simp
    have sub: "strict_on (insert x (set ys)) cmp"
      using so by (rule strict_on_subset) auto
    have "sorted_wrt (\<lambda>a b. cmp a b < 0) (insert_sorted cmp x ys)"
      using Cons.IH [OF sub] Cons.prems(2,3) by simp
    moreover have "\<forall>z \<in> set (insert_sorted cmp x ys). cmp y z < 0"
      using yx Cons.prems(3) by (simp add: set_insert_sorted)
    ultimately show ?thesis using False by simp
  qed
qed

lemma sorted_array_sort:
  "strict_on (set xs) cmp \<Longrightarrow> distinct xs \<Longrightarrow>
   sorted_wrt (\<lambda>a b. cmp a b < 0) (array_sort cmp xs)"
proof (induction xs)
  case Nil
  show ?case by (simp add: array_sort_def)
next
  case (Cons x xs)
  have sub: "strict_on (set xs) cmp"
    using Cons.prems(1) by (rule strict_on_subset) auto
  have s: "sorted_wrt (\<lambda>a b. cmp a b < 0) (array_sort cmp xs)"
    using Cons.IH [OF sub] Cons.prems(2) by simp
  have "sorted_wrt (\<lambda>a b. cmp a b < 0) (insert_sorted cmp x (array_sort cmp xs))"
    using Cons.prems s by (intro sorted_insert_sorted) (simp_all add: set_array_sort)
  then show ?case by (simp add: array_sort_def)
qed

lemma strict_sorted_unique:
  assumes "strict_on S cmp" "set xs \<subseteq> S" "set ys = set xs"
    "sorted_wrt (\<lambda>a b. cmp a b < 0) xs" "sorted_wrt (\<lambda>a b. cmp a b < 0) ys"
  shows "xs = ys"
  using assms(2-)
proof (induction xs arbitrary: ys)
  case Nil
  then show ?case by simp
next
  case (Cons x xs)
  have irrefl: "\<not> cmp a a < 0" if "a \<in> S" for a
    using assms(1) that unfolding strict_on_def by (metis less_asym)
  have asym: "\<not> (cmp a b < 0 \<and> cmp b a < 0)" if "a \<in> S" "b \<in> S" for a b
    using assms(1) that unfolding strict_on_def by (metis less_asym)
  from Cons.prems(2) obtain y ys' where ys: "ys = y # ys'" by (cases ys) auto
  have xS: "x \<in> S" and yS: "y \<in> S" using Cons.prems(1,2) ys by auto
  have xy: "x = y"
  proof (rule ccontr)
    assume ne: "x \<noteq> y"
    with Cons.prems(2) ys have "x \<in> set ys'" "y \<in> set xs" by auto
    with Cons.prems(3,4) ys have "cmp y x < 0" "cmp x y < 0" by auto
    with asym [OF xS yS] show False by simp
  qed
  have xn: "x \<notin> set xs" using Cons.prems(3) irrefl [OF xS] by auto
  have yn: "y \<notin> set ys'" using Cons.prems(4) ys irrefl [OF yS] by auto
  have e: "set ys' = set xs" using Cons.prems(2) ys xy xn yn by auto
  have sub: "set xs \<subseteq> S" using Cons.prems(1) by simp
  have sx: "sorted_wrt (\<lambda>a b. cmp a b < 0) xs" using Cons.prems(3) by simp
  have sy: "sorted_wrt (\<lambda>a b. cmp a b < 0) ys'" using Cons.prems(4) ys by simp
  have "xs = ys'" using sub e sx sy by (rule Cons.IH)
  with xy ys show ?case by simp
qed

lemma array_sort_reverse:
  assumes "strict_on (set xs) cmp" "distinct xs"
  shows "rev (array_sort cmp xs) = array_sort (\<lambda>a b. - cmp a b) xs"
proof -
  let ?neg = "\<lambda>a b. - cmp a b"
  have neg: "strict_on (set xs) ?neg" using assms(1) by (rule strict_on_negate)
  have flip: "(cmp b a < 0) = (?neg a b < 0)" if "a \<in> set xs" "b \<in> set xs" for a b
    using assms(1) that unfolding strict_on_def by auto
  have "sorted_wrt (\<lambda>a b. cmp b a < 0) (rev (array_sort cmp xs))"
    using sorted_array_sort [OF assms] by (simp add: sorted_wrt_rev)
  then have a: "sorted_wrt (\<lambda>a b. ?neg a b < 0) (rev (array_sort cmp xs))"
    by (rule sorted_wrt_mono_rel [rotated]) (simp add: set_array_sort flip)
  have d: "sorted_wrt (\<lambda>a b. ?neg a b < 0) (array_sort ?neg xs)"
    using neg assms(2) by (rule sorted_array_sort)
  show ?thesis
    by (rule strict_sorted_unique [OF neg _ _ a d]) (simp_all add: set_array_sort)
qed

text \<open>
  C9 (as amended).  For every record list without duplicate names on which the name
  comparator (the collation of the lower-cased names) is strict, sorting by name ascending
  and reversing the result equals sorting by name descending.
\<close>

theorem sort_name_reverse:
  assumes "distinct (map name xs)"
    and "strict_on (set xs) (comparator e NameColumn Asc)"
  shows "rev (sortProducts e NameColumn Asc xs) = sortProducts e NameColumn Desc xs"
proof -
  have d: "distinct xs" using assms(1) by (simp add: distinct_map)
  have c: "(\<lambda>a b. - comparator e NameColumn Asc a b) = comparator e NameColumn Desc"
    by (simp add: comparator_def fun_eq_iff)
  show ?thesis
    using array_sort_reverse [OF assms(2) d] unfolding c by (simp add: sortProducts_def)
qed

text \<open>
  Witness: \<open>Elma\<close> and \<open>Armut\<close>.
\<close>

theorem sort_name_reverse_witness:
  "distinct (map name fruit_lines) \<and>
   strict_on (set fruit_lines) (comparator ascii_engine NameColumn Asc) \<and>
   rev (sortProducts ascii_engine NameColumn Asc fruit_lines)
     = sortProducts ascii_engine NameColumn Desc fruit_lines \<and>
   sortProducts ascii_engine NameColumn Desc fruit_lines = fruit_lines"
proof -
  have d: "distinct (map name fruit_lines)"
    by (simp add: fruit_lines_def order_line_def js_def)
  have s: "strict_on (set fruit_lines) (comparator ascii_engine NameColumn Asc)"
    by (simp add: strict_on_def fruit_lines_def order_line_def js_def comparator_def
        ascii_engine_def)
  have v: "sortProducts ascii_engine NameColumn Desc fruit_lines = fruit_lines"
    by (simp add: fruit_lines_def sortProducts_def array_sort_def comparator_def view_defs js_def)
  from sort_name_reverse [OF d s] d s v show ?thesis by simp
qed

text \<open>
  Claim C9 as stated fails: \<open>Elma\<close> and \<open>elma\<close> are different names with the same
  lower-case form, the comparator returns 0 for them, and the stable sort leaves them in
  input order in both directions.
\<close>

theorem sort_reverse_counterexample:
  "distinct (map name case_lines) \<and>
   rev (sortProducts ascii_engine NameColumn Asc case_lines) = rev case_lines \<and>
   sortProducts ascii_engine NameColumn Desc case_lines = case_lines \<and>
   rev (sortProducts ascii_engine NameColumn Asc case_lines)
     \<noteq> sortProducts ascii_engine NameColumn Desc case_lines"
  by (simp add: case_lines_def sortProducts_def array_sort_def comparator_def view_defs js_def)

section \<open>Claim C10: the view throws no exception\<close>

subsection \<open>Lengths\<close>

lemma length_insert_sorted: "length (insert_sorted cmp x xs) = Suc (length xs)"
  by (induction xs) simp_all

lemma length_array_sort: "length (array_sort cmp xs) = length xs"
  by (induction xs) (simp_all add: array_sort_def length_insert_sorted)

lemma length_sortProducts: "length (sortProducts e c d xs) = length xs"
  by (simp add: sortProducts_def length_array_sort)

lemma length_annotate: "length (annotate xs) = length xs"
  by (simp add: annotate_def Let_def)

lemma length_update_le: "length (AList.update k v al) \<le> Suc (length al)"
  by (induction al) auto

lemma length_group_step: "length (group_step g p) \<le> Suc (length g)"
  by (simp add: group_step_def Let_def length_update_le split: option.split)

lemma length_foldl_group_step: "length (foldl group_step g ps) \<le> length g + length ps"
proof (induction ps arbitrary: g)
  case Nil
  show ?case by simp
next
  case (Cons p ps)
  have "length (foldl group_step (group_step g p) ps) \<le> length (group_step g p) + length ps"
    by (rule Cons.IH)
  also have "\<dots> \<le> Suc (length g) + length ps"
    using length_group_step [of g p] by simp
  finally show ?case by simp
qed

lemma length_aggregate: "length (aggregate ps) \<le> length ps"
  using length_foldl_group_step [of "[]" ps] by (simp add: aggregate_def)

lemma length_textFilter: "length (textFilter e t xs) \<le> length xs"
  by (simp add: textFilter_def)

lemma length_dateFilter: "length (dateFilter d xs) \<le> length xs"
  by (simp add: dateFilter_def)

lemma length_filteredProducts:
  "length (filteredProducts e products searchTerm sortBy sortColumn selectedDate)
     \<le> length products"
proof -
  have "length (filteredProducts e products searchTerm sortBy sortColumn selectedDate)
      = length (aggregate (textFilter e searchTerm (dateFilter selectedDate products)))"
    by (simp add: filteredProducts_def length_sortProducts length_annotate)
  also have "\<dots> \<le> length (textFilter e searchTerm (dateFilter selectedDate products))"
    by (rule length_aggregate)
  also have "\<dots> \<le> length (dateFilter selectedDate products)"
    by (rule length_textFilter)
  also have "\<dots> \<le> length products"
    by (rule length_dateFilter)
  finally show ?thesis .
qed

subsection \<open>The exceptions of the view\<close>

text \<open>
  The view does throw on an object that lacks its name: in the text filter when a search
  text is given, and in the comparator when two or more records are sorted by name.
\<close>

lemma name_search_throws:
  "filteredProducts_obj ascii_engine [nameless] (js ''a'') NoSort NameColumn (js ''2025-08-26'')
     = Inl TypeError"
  by (simp add: filteredProducts_obj_def textFilter_obj_def dateFilter_obj_def nameless_def
      call_toLowerCase_def js_def)

lemma name_sort_throws:
  "filteredProducts_obj ascii_engine [nameless, object_of (order_line 2 (js ''Elma'') (js ''2 kg''))]
     [] Asc NameColumn (js ''2025-08-26'') = Inl TypeError"
  by (simp add: filteredProducts_obj_def textFilter_obj_def dateFilter_obj_def nameless_def
      call_toLowerCase_def js_def aggregate_obj_def group_step_obj_def group_key_obj_def
      template_def annotate_obj_def count_step_obj_def sortProducts_obj_def comparator_obj_def
      object_of_def order_line_def get_property_def set_property_def object_prototype_keys_def
      Let_def)

subsection \<open>The view on the records of the normalizer\<close>

text \<open>
  On objects that have all their fields, each stage returns, and returns what the
  functions of the first model compute.
\<close>

lemma dateFilter_obj_object_of:
  "dateFilter_obj d (map object_of ps) = map object_of (dateFilter d ps)"
  by (simp add: dateFilter_obj_def dateFilter_def filter_map comp_def object_of_def)

lemma filter_throwing_map:
  "(\<And>x. f (g x) = Inr (h x)) \<Longrightarrow> filter_throwing f (map g xs) = Inr (map g (filter h xs))"
  by (induction xs) simp_all

lemma textFilter_obj_object_of:
  "textFilter_obj e t (map object_of ps) = Inr (map object_of (textFilter e t ps))"
  by (simp add: textFilter_obj_def textFilter_def filter_throwing_map call_toLowerCase_def
      object_of_def)

lemma group_key_obj_object_of: "group_key_obj (object_of p) = group_key p"
  by (simp add: group_key_obj_def group_key_def object_of_def template_def)

lemma combine_obj_object_of: "combine_obj (object_of x) (object_of p) = object_of (combine x p)"
  by (simp add: combine_obj_def combine_def object_of_def or_empty_def Let_def)

lemma map_of_map_object_of:
  "map_of (map (\<lambda>(k, p). (k, object_of p)) g) k = map_option object_of (map_of g k)"
  by (induction g) auto

lemma update_map_object_of:
  "AList.update k (object_of v) (map (\<lambda>(k, p). (k, object_of p)) g)
     = map (\<lambda>(k, p). (k, object_of p)) (AList.update k v g)"
  by (induction g) auto

lemma group_step_obj_object_of:
  "group_step_obj (map (\<lambda>(k, p). (k, object_of p)) g) (object_of p)
     = map (\<lambda>(k, p). (k, object_of p)) (group_step g p)"
  by (simp add: group_step_obj_def group_step_def group_key_obj_object_of map_of_map_object_of
      combine_obj_object_of update_map_object_of Let_def split: option.split)

lemma foldl_group_step_obj_object_of:
  "foldl group_step_obj (map (\<lambda>(k, p). (k, object_of p)) g) (map object_of ps)
     = map (\<lambda>(k, p). (k, object_of p)) (foldl group_step g ps)"
  by (induction ps arbitrary: g) (simp_all add: group_step_obj_object_of)

lemma aggregate_obj_object_of: "aggregate_obj (map object_of ps) = map object_of (aggregate ps)"
  using foldl_group_step_obj_object_of [of "[]" ps]
  by (simp add: aggregate_obj_def aggregate_def comp_def case_prod_beta)

lemma count_step_obj_object_of: "count_step_obj c (object_of p) = count_step c p"
  by (simp add: count_step_obj_def count_step_def object_of_def template_def)

lemma foldl_count_step_obj_object_of:
  "foldl count_step_obj c (map object_of ps) = foldl count_step c ps"
  by (induction ps arbitrary: c) (simp_all add: count_step_obj_object_of)

lemma annotate_obj_object_of:
  "annotate_obj (map object_of ps) = map annotated_object_of (annotate ps)"
  by (simp add: annotate_obj_def annotate_def foldl_count_step_obj_object_of Let_def comp_def
      object_of_def annotated_object_of_def template_def)

lemma comparator_obj_annotated_object_of:
  "comparator_obj e c d (annotated_object_of a) (annotated_object_of b)
     = Inr (comparator e c d a b)"
  by (simp add: comparator_obj_def comparator_def annotated_object_of_def call_toLowerCase_def
      or_empty_def Let_def split: sort_column.split)

lemma insert_sorted_throwing_map:
  "(\<And>a b. cmp' (g a) (g b) = Inr (cmp a b)) \<Longrightarrow>
   insert_sorted_throwing cmp' (g x) (map g ys) = Inr (map g (insert_sorted cmp x ys))"
  by (induction ys) simp_all

lemma array_sort_throwing_map:
  "(\<And>a b. cmp' (g a) (g b) = Inr (cmp a b)) \<Longrightarrow>
   array_sort_throwing cmp' (map g xs) = Inr (map g (array_sort cmp xs))"
  by (induction xs) (simp_all add: array_sort_def insert_sorted_throwing_map)

lemma sortProducts_obj_annotated_object_of:
  "sortProducts_obj e c d (map annotated_object_of xs)
     = Inr (map annotated_object_of (sortProducts e c d xs))"
  by (simp add: sortProducts_obj_def sortProducts_def
      array_sort_throwing_map [of "comparator_obj e c d" annotated_object_of "comparator e c d"]
      comparator_obj_annotated_object_of)

subsection \<open>Claim C10\<close>

text \<open>
  C10.  For every list of records of the normalizer, every search text, sort direction,
  sort column and selected date, the view throws no exception: it returns a result, the
  list that \<open>filteredProducts\<close> computes.  On the empty record list the view returns the
  empty list, and both counts shown (\<^verbatim>\<open>products.length\<close> of the normalizer's empty output
  and \<^verbatim>\<open>filteredProducts.length\<close>) are 0.
\<close>

theorem filteredProducts_never_throws:
  "filteredProducts_obj e (map object_of products) searchTerm sortBy sortColumn selectedDate
     = Inr (map annotated_object_of
              (filteredProducts e products searchTerm sortBy sortColumn selectedDate)) \<and>
   filteredProducts_obj e [] searchTerm sortBy sortColumn selectedDate = Inr [] \<and>
   filteredProducts e [] searchTerm sortBy sortColumn selectedDate = [] \<and>
   length (processedProducts []) = 0 \<and>
   length (filteredProducts e [] searchTerm sortBy sortColumn selectedDate) = 0"
proof -
  have a: "filteredProducts_obj e (map object_of ps) searchTerm sortBy sortColumn selectedDate
     = Inr (map annotated_object_of
              (filteredProducts e ps searchTerm sortBy sortColumn selectedDate))" for ps
    by (simp add: filteredProducts_obj_def filteredProducts_def dateFilter_obj_object_of
        textFilter_obj_object_of aggregate_obj_object_of annotate_obj_object_of
        sortProducts_obj_annotated_object_of)
  have b: "filteredProducts e [] searchTerm sortBy sortColumn selectedDate = []"
    by (simp add: filteredProducts_def dateFilter_def textFilter_def aggregate_def annotate_def
        sortProducts_def array_sort_def)
  have c: "processedProducts [] = []"
    by (simp add: processedProducts_def enumerate_eq_zip)
  from a [of products] a [of "[]"] b c show ?thesis by simp
qed

end
